theory Spec2Isabelle
  imports Complex_Main "HOL-Library.Sublist" "HOL-Library.Multiset"
begin

section \<open>Python strings\<close>

text \<open>
  Python \<open>str\<close> values are modelled as \<open>string\<close>; the texts of interest (device
  commands, prompts, the pagination marker) are ASCII, where a \<open>char\<close> is one code point.

  \<open>py_in sub text\<close> is Python's \<open>sub in text\<close>.
\<close>

fun py_in :: "string \<Rightarrow> string \<Rightarrow> bool" where
  "py_in sub [] = (sub = [])"
| "py_in sub (c # cs) = (prefix sub (c # cs) \<or> py_in sub cs)"

text \<open>
  \<open>py_replace old new text\<close> is \<open>text.replace(old, new)\<close>: every occurrence of \<open>old\<close>,
  found from the left and without overlaps, is replaced. An empty \<open>old\<close> matches before
  every character and at the end, as in Python.
\<close>

fun py_replace :: "string \<Rightarrow> string \<Rightarrow> string \<Rightarrow> string" where
  "py_replace old new [] = (if old = [] then new else [])"
| "py_replace old new (c # cs) =
     (if old = [] then new @ c # py_replace old new cs
      else if prefix old (c # cs) then new @ py_replace old new (drop (length old) (c # cs))
      else c # py_replace old new cs)"

text \<open>\<open>lower\<close> is \<open>str.lower()\<close> on ASCII text: only \<open>A\<close> to \<open>Z\<close> change.\<close>

definition lower_char :: "char \<Rightarrow> char" where
  "lower_char c =
     (case map_of (zip ''ABCDEFGHIJKLMNOPQRSTUVWXYZ'' ''abcdefghijklmnopqrstuvwxyz'') c of
        Some l \<Rightarrow> l
      | None \<Rightarrow> c)"

definition lower :: "string \<Rightarrow> string" where
  "lower s = map lower_char s"

section \<open>Variables and substitution\<close>

text \<open>
  The task's \<open>variables\<close> dictionary (\<open>Dict[str, str]\<close>). A Python dictionary iterates
  in insertion order and \<open>_resolve_variables\<close> depends on that order, so it is an
  association list. \<open>dict_set\<close> is the assignment \<open>variables[key] = value\<close>: an existing
  key keeps its position, a new key goes to the end.
\<close>

type_synonym variables = "(string \<times> string) list"

fun dict_set :: "variables \<Rightarrow> string \<Rightarrow> string \<Rightarrow> variables" where
  "dict_set [] key v = [(key, v)]"
| "dict_set ((k, v') # kvs) key v =
     (if k = key then (key, v) # kvs else (k, v') # dict_set kvs key v)"

text \<open>The f-string of \<open>_resolve_variables\<close>: two opening braces, the key, two closing braces.\<close>

definition placeholder :: "string \<Rightarrow> string" where
  "placeholder key = ''{{'' @ key @ ''}}''"

text \<open>
  \<open>_resolve_variables\<close>: one \<open>str.replace\<close> per binding, in the dictionary's order, each
  on the text the previous one produced.
\<close>

fun resolve_variables :: "string \<Rightarrow> variables \<Rightarrow> string" where
  "resolve_variables text [] = text"
| "resolve_variables text ((key, v) # rest) =
     resolve_variables (py_replace (placeholder key) v text) rest"

text \<open>
  A template seen as literal text and placeholders, used to state what substitution
  does on templates whose placeholders are not nested.
\<close>

datatype piece = Lit string | Var string

fun render :: "piece list \<Rightarrow> string" where
  "render [] = []"
| "render (Lit s # ps) = s @ render ps"
| "render (Var n # ps) = placeholder n @ render ps"

definition brace_free :: "string \<Rightarrow> bool" where
  "brace_free s = (CHR ''{'' \<notin> set s \<and> CHR ''}'' \<notin> set s)"

fun plain_piece :: "piece \<Rightarrow> bool" where
  "plain_piece (Lit s) = (CHR ''{'' \<notin> set s)"
| "plain_piece (Var n) = brace_free n"

fun plain_binding :: "string \<times> string \<Rightarrow> bool" where
  "plain_binding (k, v) = (brace_free k \<and> CHR ''{'' \<notin> set v)"

fun bound_piece :: "variables \<Rightarrow> piece \<Rightarrow> string" where
  "bound_piece vars (Lit s) = s"
| "bound_piece vars (Var n) = (case map_of vars n of Some v \<Rightarrow> v | None \<Rightarrow> placeholder n)"

fun subst_piece :: "string \<Rightarrow> string \<Rightarrow> piece \<Rightarrow> piece" where
  "subst_piece k v (Lit s) = Lit s"
| "subst_piece k v (Var n) = (if n = k then Lit v else Var n)"

section \<open>Session and command dispatch\<close>

text \<open>
  The executor holds a paramiko connection and, for H3C-like devices, an interactive
  shell. \<open>execute_command\<close> uses the shell when there is one, else \<open>exec_command\<close> on
  the connection, and does nothing when there is neither.
\<close>

datatype session_mode = Shell | Exec | Disconnected

text \<open>
  What the transport does with one dispatched command: it raises (any \<open>Exception\<close>, with
  its message), or it yields the output text (the framed shell output, or stdout of
  \<open>exec_command\<close>) and the stderr text (read in exec mode only). The device may answer
  differently depending on the commands it was sent before and on the timeout.
\<close>

datatype response = Raises string | Replies string string

record session =
  mode :: session_mode
  respond :: "string list \<Rightarrow> int \<Rightarrow> string \<Rightarrow> response"

text \<open>
  The effects of a run: \<open>sent\<close> lists the commands handed to the transport, oldest
  first; \<open>stdin\<close> holds the lines that \<open>input()\<close> will read for confirmations.
\<close>

record world =
  sent :: "string list"
  stdin :: "string list"

datatype py_error = EOFError | IndexError

text \<open>The per-command record \<open>{command, success, output, error}\<close>.\<close>

record cmd_result =
  command :: string
  success :: bool
  cmd_output :: string
  error :: "string option"

text \<open>
  \<open>execute_command\<close>. Every exception of the transport is caught and recorded in the
  result; looking the error up in the experience store and logging are taken to succeed.
\<close>

definition execute_command :: "session \<Rightarrow> string \<Rightarrow> int \<Rightarrow> world \<Rightarrow> cmd_result \<times> world" where
  "execute_command sess cmd tmo w =
     (case mode sess of
        Disconnected \<Rightarrow>
          (\<lparr>command = cmd, success = False, cmd_output = [], error = None\<rparr>, w)
      | Shell \<Rightarrow>
          (case respond sess (sent w) tmo cmd of
             Raises e \<Rightarrow>
               (\<lparr>command = cmd, success = False, cmd_output = [], error = Some e\<rparr>,
                w\<lparr>sent := sent w @ [cmd]\<rparr>)
           | Replies out err \<Rightarrow>
               (\<lparr>command = cmd, success = True, cmd_output = out, error = None\<rparr>,
                w\<lparr>sent := sent w @ [cmd]\<rparr>))
      | Exec \<Rightarrow>
          (case respond sess (sent w) tmo cmd of
             Raises e \<Rightarrow>
               (\<lparr>command = cmd, success = False, cmd_output = [], error = Some e\<rparr>,
                w\<lparr>sent := sent w @ [cmd]\<rparr>)
           | Replies out err \<Rightarrow>
               (\<lparr>command = cmd, success = True, cmd_output = out,
                 error = (if err = [] then None else Some err)\<rparr>,
                w\<lparr>sent := sent w @ [cmd]\<rparr>)))"

text \<open>
  The automatic handling of save commands in \<open>execute_commands\<close>: a command whose
  lower-cased text contains \<open>save\<close> and does not contain \<open>force\<close> becomes \<open>save force\<close>.
\<close>

definition save_rewrite :: "string \<Rightarrow> string" where
  "save_rewrite cmd =
     (if py_in ''save'' (lower cmd) \<and> \<not> py_in ''force'' (lower cmd) then ''save force'' else cmd)"

text \<open>The \<open>for\<close> loop of \<open>execute_commands\<close>, with its \<open>break\<close> on a failure when \<open>stop_on_error\<close>.\<close>

fun dispatch_loop ::
  "session \<Rightarrow> int \<Rightarrow> bool \<Rightarrow> string list \<Rightarrow> cmd_result list \<Rightarrow> world \<Rightarrow> cmd_result list \<times> world" where
  "dispatch_loop sess tmo soe [] results w = (results, w)"
| "dispatch_loop sess tmo soe (cmd # rest) results w =
     (case execute_command sess (save_rewrite cmd) tmo w of
        (result, w') \<Rightarrow>
          if \<not> success result \<and> soe then (results @ [result], w')
          else dispatch_loop sess tmo soe rest (results @ [result]) w')"

text \<open>
  \<open>execute_commands\<close>. With \<open>confirm\<close>, one line is read from standard input (an
  exhausted input raises \<open>EOFError\<close>) and anything but \<open>yes\<close> or \<open>y\<close> cancels the batch
  with an empty result list. With \<open>save_config\<close>, a final \<open>save force\<close> is dispatched
  with a timeout of 60 and its result is dropped.
\<close>

definition execute_commands ::
  "session \<Rightarrow> string list \<Rightarrow> int \<Rightarrow> bool \<Rightarrow> bool \<Rightarrow> bool \<Rightarrow> world
     \<Rightarrow> (py_error + cmd_result list) \<times> world" where
  "execute_commands sess cmds tmo soe save_config cnf w =
     (let run = (\<lambda>w0.
            case dispatch_loop sess tmo soe cmds [] w0 of
              (results, w1) \<Rightarrow>
                if save_config then (Inr results, snd (execute_command sess ''save force'' 60 w1))
                else (Inr results, w1))
      in if cnf then
           (case stdin w of
              [] \<Rightarrow> (Inl EOFError, w)
            | line # lines \<Rightarrow>
                if lower line \<noteq> ''yes'' \<and> lower line \<noteq> ''y''
                then (Inr [], w\<lparr>stdin := lines\<rparr>)
                else run (w\<lparr>stdin := lines\<rparr>))
         else run w)"

section \<open>Tasks and steps\<close>

text \<open>
  A condition is a dictionary that may hold \<open>equals\<close> (a list of operands) or \<open>exists\<close>
  (a variable name); \<open>equals\<close> is looked at first.
\<close>

record condition =
  equals :: "string list option"
  exists :: "string option"

text \<open>
  The \<open>items\<close> of a loop are a list of strings or one string (such as a placeholder);
  Python's \<open>for\<close> over a string iterates over its characters. The fields hold what
  \<open>loop_config.get\<close> returns (\<open>items\<close>: \<open>[]\<close> by default, \<open>item_var\<close>: \<open>item\<close> by default).
\<close>

datatype loop_items = ItemList "string list" | ItemText string

record loop_config =
  items :: loop_items
  item_var :: string

text \<open>
  A step dictionary. Each field holds what the code reads with \<open>step.get(key, default)\<close>
  (\<open>commands\<close>: \<open>[]\<close>, \<open>timeout\<close>: 30, \<open>stop_on_error\<close>: true, \<open>confirm\<close>: false); the keys
  the code tests with \<open>in\<close> are optional.
\<close>

datatype step = Step
  (commands: "string list")
  (condition: "condition option")
  (loop: "loop_config option")
  (rollback: "step list option")
  (timeout: int)
  (stop_on_error: bool)
  (confirm: bool)

text \<open>
  The result dictionary of a step: \<open>success\<close>, \<open>output\<close> (absent for a plain command
  step), \<open>skipped\<close> (the key is set only when the condition was false) and \<open>results\<close>
  (the per-command records, absent for a skipped step and a finished loop).
\<close>

record step_result =
  step_success :: bool
  step_output :: "string option"
  skipped :: bool
  step_results :: "cmd_result list option"

text \<open>\<open>_resolve_variable\<close> on the loop's items, and the sequence the \<open>for\<close> loop then walks.\<close>

fun resolve_variable :: "loop_items \<Rightarrow> variables \<Rightarrow> loop_items" where
  "resolve_variable (ItemText s) vars = ItemText (resolve_variables s vars)"
| "resolve_variable (ItemList xs) vars = ItemList (map (\<lambda>v. resolve_variables v vars) xs)"

fun iterate :: "loop_items \<Rightarrow> string list" where
  "iterate (ItemList xs) = xs"
| "iterate (ItemText s) = map (\<lambda>c. [c]) s"

text \<open>
  \<open>_evaluate_condition\<close>. Indexing the operands of \<open>equals\<close> raises \<open>IndexError\<close> when
  there are fewer than two. \<open>exists\<close> holds for a bound variable with a non-empty value.
  A condition of neither kind is true.
\<close>

definition evaluate_condition :: "condition \<Rightarrow> variables \<Rightarrow> py_error + bool" where
  "evaluate_condition c vars =
     (case equals c of
        Some ops \<Rightarrow>
          if length ops < 2 then Inl IndexError
          else Inr (resolve_variables (ops ! 0) vars = resolve_variables (ops ! 1) vars)
      | None \<Rightarrow>
          (case exists c of
             Some var_name \<Rightarrow>
               Inr (case map_of vars var_name of Some v \<Rightarrow> v \<noteq> [] | None \<Rightarrow> False)
           | None \<Rightarrow> Inr True))"

text \<open>\<open>_execute_commands_in_step\<close>: substitute, dispatch, and succeed when every record does.\<close>

definition execute_commands_in_step ::
  "session \<Rightarrow> step \<Rightarrow> variables \<Rightarrow> world \<Rightarrow> (py_error + step_result) \<times> world" where
  "execute_commands_in_step sess step vars w =
     (case execute_commands sess (map (\<lambda>cmd. resolve_variables cmd vars) (commands step))
             (timeout step) (stop_on_error step) False (confirm step) w of
        (Inl e, w') \<Rightarrow> (Inl e, w')
      | (Inr rs, w') \<Rightarrow>
          (Inr \<lparr>step_success = list_all success rs, step_output = None,
                skipped = False, step_results = Some rs\<rparr>, w'))"

text \<open>
  The loop of \<open>_execute_step\<close>: the loop variable is assigned in the shared dictionary,
  the step's commands run, and a failed iteration returns its own result at once.
\<close>

fun loop_over ::
  "session \<Rightarrow> step \<Rightarrow> string \<Rightarrow> string list \<Rightarrow> variables \<Rightarrow> world
     \<Rightarrow> (py_error + step_result) \<times> variables \<times> world" where
  "loop_over sess step var [] vars w =
     (Inr \<lparr>step_success = True, step_output = Some [], skipped = False, step_results = None\<rparr>,
      vars, w)"
| "loop_over sess step var (item # rest) vars w =
     (case execute_commands_in_step sess step (dict_set vars var item) w of
        (Inl e, w') \<Rightarrow> (Inl e, dict_set vars var item, w')
      | (Inr sub_result, w') \<Rightarrow>
          if \<not> step_success sub_result then (Inr sub_result, dict_set vars var item, w')
          else loop_over sess step var rest (dict_set vars var item) w')"

text \<open>
  \<open>_execute_step\<close>: the condition first (a false one skips the step, which counts as a
  success), then the loop, then the plain command list. The variables are returned
  because the loop assigns to the caller's dictionary.
\<close>

definition execute_step ::
  "session \<Rightarrow> step \<Rightarrow> variables \<Rightarrow> world \<Rightarrow> (py_error + step_result) \<times> variables \<times> world" where
  "execute_step sess step vars w =
     (case (case condition step of None \<Rightarrow> Inr True | Some c \<Rightarrow> evaluate_condition c vars) of
        Inl e \<Rightarrow> (Inl e, vars, w)
      | Inr holds \<Rightarrow>
          if \<not> holds then
            (Inr \<lparr>step_success = True, step_output = Some [], skipped = True,
                  step_results = None\<rparr>, vars, w)
          else
            (case loop step of
               Some lc \<Rightarrow>
                 loop_over sess step (item_var lc) (iterate (resolve_variable (items lc) vars)) vars w
             | None \<Rightarrow>
                 (case execute_commands_in_step sess step vars w of
                    (r, w') \<Rightarrow> (r, vars, w'))))"

text \<open>
  \<open>_execute_rollback\<close>: the rollback steps run last to first; their results are dropped,
  an exception ends the rollback.
\<close>

fun run_each :: "session \<Rightarrow> step list \<Rightarrow> variables \<Rightarrow> world \<Rightarrow> py_error option \<times> variables \<times> world" where
  "run_each sess [] vars w = (None, vars, w)"
| "run_each sess (step # rest) vars w =
     (case execute_step sess step vars w of
        (Inl e, vars', w') \<Rightarrow> (Some e, vars', w')
      | (Inr r, vars', w') \<Rightarrow> run_each sess rest vars' w')"

definition execute_rollback ::
  "session \<Rightarrow> step list \<Rightarrow> variables \<Rightarrow> world \<Rightarrow> py_error option \<times> variables \<times> world" where
  "execute_rollback sess rollback_steps vars w = run_each sess (rev rollback_steps) vars w"

record task =
  name :: string
  variables :: variables
  steps :: "step list"

record task_result =
  task_name :: string
  task_success :: bool
  steps_completed :: nat
  steps_total :: nat
  results :: "step_result list"
  task_error :: "py_error option"

text \<open>
  The step loop of \<open>execute_task\<close>. A failed step runs its own rollback list when it has
  one, and the loop ends. An exception (from a step or from the rollback) leaves the
  loop and is recorded by the handler of \<open>execute_task\<close>, here in \<open>task_error\<close>.
\<close>

fun run_steps ::
  "session \<Rightarrow> step list \<Rightarrow> variables \<Rightarrow> task_result \<Rightarrow> world
     \<Rightarrow> task_result \<times> variables \<times> world" where
  "run_steps sess [] vars result w = (result, vars, w)"
| "run_steps sess (step # rest) vars result w =
     (case execute_step sess step vars w of
        (Inl e, vars1, w1) \<Rightarrow> (result\<lparr>task_error := Some e\<rparr>, vars1, w1)
      | (Inr sr, vars1, w1) \<Rightarrow>
          if \<not> step_success sr then
            (case rollback step of
               None \<Rightarrow> (result\<lparr>results := results result @ [sr]\<rparr>, vars1, w1)
             | Some rollback_steps \<Rightarrow>
                 (case execute_rollback sess rollback_steps vars1 w1 of
                    (exc, vars2, w2) \<Rightarrow>
                      (result\<lparr>results := results result @ [sr], task_error := exc\<rparr>,
                       vars2, w2)))
          else
            run_steps sess rest vars1
              (result\<lparr>results := results result @ [sr],
                      steps_completed := steps_completed result + 1\<rparr>) w1)"

text \<open>
  \<open>execute_task\<close>: \<open>success\<close> is assigned after the loop, unless an exception was caught.
  The task's variables and the world are returned as the run left them.
\<close>

definition execute_task :: "session \<Rightarrow> task \<Rightarrow> world \<Rightarrow> task_result \<times> variables \<times> world" where
  "execute_task sess task w =
     (case run_steps sess (steps task) (variables task)
             \<lparr>task_name = name task, task_success = False, steps_completed = 0,
              steps_total = length (steps task), results = [], task_error = None\<rparr> w of
        (result, vars', w') \<Rightarrow>
          (case task_error result of
             None \<Rightarrow>
               (result\<lparr>task_success := (steps_completed result = steps_total result)\<rparr>, vars', w')
           | Some e \<Rightarrow> (result, vars', w')))"


section \<open>Output framing\<close>

text \<open>
  \<open>_handle_pagination\<close> reads an interactive shell until it decides that the device has
  finished. The clock is explicit and counts tenths of a second; it advances only in
  \<open>time.sleep\<close> (0.3 s, 0.5 s and 0.2 s are 3, 5 and 2 ticks, the idle limit of 3 s is 30
  ticks, a timeout of \<open>t\<close> seconds is \<open>10 * t\<close> ticks). The shell's state also records what
  \<open>recv\<close> consumed and what \<open>send\<close> transmitted. This clock serves for what the loop
  sends and returns, which does not depend on the time; how long the loop runs is the
  subject of the next section, where the clock is left to the environment.
\<close>

record shell_state =
  now :: int
  chunks_read :: "string list"
  keys_sent :: "string list"

text \<open>
  The byte-arrival schedule: the (decoded) data that \<open>recv\<close> would return in a given
  state, or \<open>None\<close> when \<open>recv_ready()\<close> is false. The schedule may depend on the time, on
  what was read and on the keys sent so far.
\<close>

type_synonym shell = "shell_state \<Rightarrow> string option"

definition more_marker :: string where
  "more_marker = ''---- More ----''"

text \<open>
  The prompt pattern \<open><\w+>|\[\S+\]\<close> of \<open>re.search\<close>, on ASCII text: a user-view prompt
  is \<open><\<close>, one or more word characters, \<open>>\<close>; a system-view prompt is \<open>[\<close>, one or more
  characters that are not white space, \<open>]\<close>.
\<close>

definition word_char :: "char \<Rightarrow> bool" where
  "word_char c =
     (let n = (of_char c :: nat)
      in (48 \<le> n \<and> n \<le> 57) \<or> (65 \<le> n \<and> n \<le> 90) \<or> (97 \<le> n \<and> n \<le> 122) \<or> n = 95)"

definition space_char :: "char \<Rightarrow> bool" where
  "space_char c =
     (let n = (of_char c :: nat) in (9 \<le> n \<and> n \<le> 13) \<or> (28 \<le> n \<and> n \<le> 32))"

fun user_prompt_at :: "string \<Rightarrow> bool" where
  "user_prompt_at [] = False"
| "user_prompt_at (c # cs) =
     (c = CHR ''<'' \<and> takeWhile word_char cs \<noteq> [] \<and>
      (case dropWhile word_char cs of [] \<Rightarrow> False | d # ds \<Rightarrow> d = CHR ''>''))"

fun system_prompt_at :: "string \<Rightarrow> bool" where
  "system_prompt_at [] = False"
| "system_prompt_at (c # cs) =
     (c = CHR ''['' \<and> CHR '']'' \<in> set (tl (takeWhile (\<lambda>d. \<not> space_char d) cs)))"

fun prompt_match :: "string \<Rightarrow> bool" where
  "prompt_match [] = False"
| "prompt_match (c # cs) =
     (user_prompt_at (c # cs) \<or> system_prompt_at (c # cs) \<or> prompt_match cs)"

text \<open>The two effects on the shell: \<open>recv\<close> consumes a chunk, \<open>send\<close> transmits a key.\<close>

definition recv :: "shell_state \<Rightarrow> string \<Rightarrow> shell_state" where
  "recv st chunk = st\<lparr>chunks_read := chunks_read st @ [chunk]\<rparr>"

definition send :: "shell_state \<Rightarrow> string \<Rightarrow> shell_state" where
  "send st key = st\<lparr>keys_sent := keys_sent st @ [key]\<rparr>"

definition sleep :: "shell_state \<Rightarrow> int \<Rightarrow> shell_state" where
  "sleep st ticks = st\<lparr>now := now st + ticks\<rparr>"

text \<open>The idle test: more than 3 s without data and more than 50 characters read.\<close>

definition idle :: "shell_state \<Rightarrow> int \<Rightarrow> string \<Rightarrow> bool" where
  "idle st last_data_time out = (now st - last_data_time > 30 \<and> length out > 50)"

text \<open>
  The \<open>while\<close> loop of \<open>_handle_pagination\<close>, one equation per pass: the arguments are the
  local variables \<open>start_time\<close>, \<open>last_data_time\<close> and \<open>output\<close>, and the shell's state.
\<close>

function read_loop ::
  "shell \<Rightarrow> int \<Rightarrow> int \<Rightarrow> int \<Rightarrow> string \<Rightarrow> shell_state \<Rightarrow> string \<times> shell_state" where
  "read_loop sh tmo start_time last_data_time out st =
     (if \<not> (now st - start_time < 10 * tmo) then (out, st)
      else
        (case sh st of
           None \<Rightarrow>
             if idle st last_data_time out then (out, st)
             else read_loop sh tmo start_time last_data_time out (sleep st 2)
         | Some chunk \<Rightarrow>
             if py_in more_marker chunk then
               read_loop sh tmo start_time (now st) (out @ chunk)
                 (sleep (send (recv st chunk) '' '') 3)
             else if prompt_match chunk \<and> length (out @ chunk) > 50 then
               (if sh (sleep (recv st chunk) 5) = None then (out @ chunk, sleep (recv st chunk) 5)
                else if idle (sleep (recv st chunk) 5) (now st) (out @ chunk)
                then (out @ chunk, sleep (recv st chunk) 5)
                else read_loop sh tmo start_time (now st) (out @ chunk)
                       (sleep (sleep (recv st chunk) 5) 2))
             else if idle (recv st chunk) (now st) (out @ chunk) then (out @ chunk, recv st chunk)
             else read_loop sh tmo start_time (now st) (out @ chunk) (sleep (recv st chunk) 2)))"
  by pat_completeness auto
termination
  by (relation "measure (\<lambda>(sh, tmo, start_time, last_data_time, out, st).
                  nat (10 * tmo - (now st - start_time)))")
     (auto simp: sleep_def send_def recv_def)

declare read_loop.simps [simp del]

definition handle_pagination :: "shell \<Rightarrow> int \<Rightarrow> shell_state \<Rightarrow> string \<times> shell_state" where
  "handle_pagination sh tmo st = read_loop sh tmo (now st) (now st) [] st"

text \<open>\<open>str.count\<close>: the occurrences of a non-empty text, from the left and without overlaps.\<close>

fun py_count :: "string \<Rightarrow> string \<Rightarrow> nat" where
  "py_count sub [] = 0"
| "py_count sub (c # cs) =
     (if sub \<noteq> [] \<and> prefix sub (c # cs) then Suc (py_count sub (drop (length sub) (c # cs)))
      else py_count sub cs)"

section \<open>Output framing on the wall clock\<close>

text \<open>
  For the time \<open>_handle_pagination\<close> takes, the clock is left to the environment. The
  code reads the clock with \<open>time.time()\<close>; \<open>time_at env n\<close> is the value that the
  \<open>n\<close>-th such call returns, counted from the start of the run, so nothing is fixed
  about how long a sleep, a \<open>recv\<close> or a \<open>send\<close> takes. The state counts the readings
  taken and records what \<open>recv\<close> consumed, what \<open>send\<close> transmitted and the sleeps that
  were requested. The byte-arrival schedule \<open>arrival\<close> gives the (decoded) data that
  \<open>recv\<close> would return in a given state, or \<open>None\<close> when \<open>recv_ready()\<close> is false; as the
  state counts the readings, the schedule may depend on the time. As in the previous
  section the output is ASCII text, and \<open>recv_ready\<close>, \<open>recv\<close> and \<open>send\<close> return without
  raising.
\<close>

record clocked_state =
  readings :: nat
  chunks_got :: "string list"
  keys_typed :: "string list"
  naps :: "real list"

text \<open>
  The difference of two clock readings is a floating-point subtraction: its result is
  the exact difference, rounded. Rounding is monotone and the integers the code
  compares with (the timeout, and 3) are floating-point numbers themselves, so the
  rounded difference is below (above) the integer \<open>n\<close> exactly when the exact difference
  is and is not rounded to \<open>n\<close>. Whether a difference is rounded to \<open>n\<close> is left to the
  environment (\<open>rounds_to\<close>).
\<close>

record clocked_env =
  time_at :: "nat \<Rightarrow> real"
  rounds_to :: "real \<Rightarrow> real \<Rightarrow> int \<Rightarrow> bool"
  arrival :: "clocked_state \<Rightarrow> string option"

text \<open>
  \<open>clock\<close> is the value of the next reading and \<open>tick\<close> takes it. \<open>float_less env a b n\<close>
  is the test \<open>a - b < n\<close> of the code, \<open>float_greater env a b n\<close> the test \<open>a - b > n\<close>.
\<close>

definition clock :: "clocked_env \<Rightarrow> clocked_state \<Rightarrow> real" where
  "clock env st = time_at env (readings st)"

definition tick :: "clocked_state \<Rightarrow> clocked_state" where
  "tick st = st\<lparr>readings := Suc (readings st)\<rparr>"

definition float_less :: "clocked_env \<Rightarrow> real \<Rightarrow> real \<Rightarrow> int \<Rightarrow> bool" where
  "float_less env a b n = (a - b < of_int n \<and> \<not> rounds_to env a b n)"

definition float_greater :: "clocked_env \<Rightarrow> real \<Rightarrow> real \<Rightarrow> int \<Rightarrow> bool" where
  "float_greater env a b n = (of_int n < a - b \<and> \<not> rounds_to env a b n)"

definition got :: "clocked_state \<Rightarrow> string \<Rightarrow> clocked_state" where
  "got st chunk = st\<lparr>chunks_got := chunks_got st @ [chunk]\<rparr>"

definition typed :: "clocked_state \<Rightarrow> string \<Rightarrow> clocked_state" where
  "typed st key = st\<lparr>keys_typed := keys_typed st @ [key]\<rparr>"

definition nap :: "clocked_state \<Rightarrow> real \<Rightarrow> clocked_state" where
  "nap st seconds = st\<lparr>naps := naps st @ [seconds]\<rparr>"

text \<open>
  How a pass of the \<open>while\<close> loop ends: with \<open>break\<close>, or at the end of the body or a
  \<open>continue\<close>, which both lead to the next loop test. Each carries the local variables
  \<open>last_data_time\<close> (where needed) and \<open>output\<close>, and the state.
\<close>

datatype pass_end = Break string clocked_state | Continue real string clocked_state

text \<open>
  The end of the loop body: the idle test (more than 3 s without data and more than 50
  characters read), which reads the clock, and the sleep of 0.2 s.
\<close>

definition idle_check :: "clocked_env \<Rightarrow> real \<Rightarrow> string \<Rightarrow> clocked_state \<Rightarrow> pass_end" where
  "idle_check env last_data_time out st =
     (if float_greater env (clock env st) last_data_time 3 \<and> length out > 50
      then Break out (tick st)
      else Continue last_data_time out (nap (tick st) (2 / 10)))"

text \<open>The body of the \<open>while\<close> loop.\<close>

definition loop_body :: "clocked_env \<Rightarrow> real \<Rightarrow> string \<Rightarrow> clocked_state \<Rightarrow> pass_end" where
  "loop_body env last_data_time out st =
     (case arrival env st of
        None \<Rightarrow> idle_check env last_data_time out st
      | Some chunk \<Rightarrow>
          if py_in more_marker chunk then
            Continue (clock env (got st chunk)) (out @ chunk)
              (nap (typed (tick (got st chunk)) '' '') (3 / 10))
          else if prompt_match chunk \<and> length (out @ chunk) > 50 then
            (if arrival env (nap (tick (got st chunk)) (5 / 10)) = None
             then Break (out @ chunk) (nap (tick (got st chunk)) (5 / 10))
             else idle_check env (clock env (got st chunk)) (out @ chunk)
                    (nap (tick (got st chunk)) (5 / 10)))
          else idle_check env (clock env (got st chunk)) (out @ chunk) (tick (got st chunk)))"

text \<open>
  The \<open>while\<close> loop: the loop test reads the clock. On a clock that never shows the
  timeout reached, the loop need not end; then the value is \<open>None\<close>.
\<close>

partial_function (option) clocked_loop ::
  "clocked_env \<Rightarrow> int \<Rightarrow> real \<Rightarrow> real \<Rightarrow> string \<Rightarrow> clocked_state
     \<Rightarrow> (string \<times> clocked_state) option" where
  "clocked_loop env tmo start_time last_data_time out st =
     (if float_less env (clock env st) start_time tmo then
        (case loop_body env last_data_time out (tick st) of
           Break out' st' \<Rightarrow> Some (out', st')
         | Continue last_data_time' out' st' \<Rightarrow>
             clocked_loop env tmo start_time last_data_time' out' st')
      else Some (out, tick st))"

text \<open>\<open>_handle_pagination\<close>: \<open>start_time\<close> and \<open>last_data_time\<close> are two readings of the clock.\<close>

definition clocked_handle_pagination ::
  "clocked_env \<Rightarrow> int \<Rightarrow> clocked_state \<Rightarrow> (string \<times> clocked_state) option" where
  "clocked_handle_pagination env tmo st =
     clocked_loop env tmo (clock env st) (clock env (tick st)) [] (tick (tick st))"

text \<open>
  The relation between a state of the read loop and what the loop returns from it: the
  chunks read from then on make up the rest of the returned text, and one key was sent
  for each of them that holds the pagination marker.
\<close>

definition clocked_framed :: "string \<Rightarrow> clocked_state \<Rightarrow> string \<Rightarrow> clocked_state \<Rightarrow> bool" where
  "clocked_framed out st out' st' =
     (\<exists>cs. chunks_got st' = chunks_got st @ cs \<and> out' = out @ concat cs \<and>
           keys_typed st' =
             keys_typed st @ replicate (length (filter (py_in more_marker) cs)) '' '')"

section \<open>Batch execution\<close>

text \<open>
  A device descriptor is a dictionary; the connection handle and the data an operation
  returns are left open. The network decides what \<open>ConnectHandler\<close> does for a
  descriptor (it raises, or yields a connection) and whether \<open>disconnect\<close> raises. An
  operation raises or returns. Exceptions are those of class \<open>Exception\<close>, with their
  message.
\<close>

type_synonym device_info = "string \<rightharpoonup> string"

record 'c network =
  connect_handler :: "device_info \<Rightarrow> string + 'c"
  disconnect :: "'c \<Rightarrow> string option"

datatype 'd op_outcome = OpRaises string | OpReturns 'd

record 'd batch_result =
  host :: string
  operation :: string
  status :: string
  message :: string
  data :: "'d option"

text \<open>
  \<open>console.print\<close> renders its text as rich markup, and rich raises \<open>MarkupError\<close> on a
  text it cannot render, such as one with a closing tag that matches no open tag. What
  rich does with a text is left to the console: \<open>None\<close> when the text is printed,
  \<open>Some m\<close> when rendering it raises with the message \<open>m\<close>. The console is asked about
  every text into which a host, an operation name or a message is interpolated; texts
  that are constant, or constant but for a number or a status, are taken to print.
  \<open>console_print\<close> also appends the text to the log of texts handed to the console.
\<close>

type_synonym console = "string \<Rightarrow> string option"

definition console_print :: "console \<Rightarrow> string \<Rightarrow> string list \<Rightarrow> string option \<times> string list" where
  "console_print con text_arg printed = (con text_arg, printed @ [text_arg])"

text \<open>
  The texts of the program, as UTF-8: the two messages of \<open>execute_on_device\<close>, the
  message of \<open>KeyError('host')\<close>, and the texts it prints.
\<close>

definition connect_failed_message :: string where
  "connect_failed_message =
     [CHR 0xE8, CHR 0xBF, CHR 0x9E, CHR 0xE6, CHR 0x8E, CHR 0xA5,
      CHR 0xE5, CHR 0xA4, CHR 0xB1, CHR 0xE8, CHR 0xB4, CHR 0xA5]"

definition success_suffix :: string where
  "success_suffix = [CHR 0xE6, CHR 0x88, CHR 0x90, CHR 0xE5, CHR 0x8A, CHR 0x9F]"

definition key_error_host :: string where
  "key_error_host = CHR 0x27 # ''host'' @ [CHR 0x27]"

definition connecting_text :: "string \<Rightarrow> string" where
  "connecting_text h =
     ''[cyan]'' @
     [CHR 0xE8, CHR 0xBF, CHR 0x9E, CHR 0xE6, CHR 0x8E, CHR 0xA5, CHR 0xE5, CHR 0x88, CHR 0xB0,
      CHR 0x20] @ h @ ''...[/cyan]''"

definition connect_failed_text :: "string \<Rightarrow> string \<Rightarrow> string" where
  "connect_failed_text h e =
     ''[red]'' @ connect_failed_message @ '' '' @ h @ '': '' @ e @ ''[/red]''"

definition connected_text :: "string \<Rightarrow> string" where
  "connected_text operation_name =
     ''[green]'' @
     [CHR 0xE2, CHR 0x9C, CHR 0x93, CHR 0x20, CHR 0xE5, CHR 0xB7, CHR 0xB2, CHR 0xE8, CHR 0xBF,
      CHR 0x9E, CHR 0xE6, CHR 0x8E, CHR 0xA5, CHR 0xEF, CHR 0xBC, CHR 0x8C, CHR 0xE6, CHR 0x89,
      CHR 0xA7, CHR 0xE8, CHR 0xA1, CHR 0x8C] @ operation_name @ ''...[/green]''"

definition done_text :: "string \<Rightarrow> string \<Rightarrow> string" where
  "done_text h operation_name =
     ''[green]'' @ [CHR 0xE2, CHR 0x9C, CHR 0x93, CHR 0x20] @ h @ '' '' @ operation_name @
     [CHR 0xE5, CHR 0xAE, CHR 0x8C, CHR 0xE6, CHR 0x88, CHR 0x90] @ ''[/green]''"

definition failed_text :: "string \<Rightarrow> string \<Rightarrow> string" where
  "failed_text h e =
     ''[red]'' @ [CHR 0xE2, CHR 0x9C, CHR 0x97, CHR 0x20] @ h @
     [CHR 0x20, CHR 0xE6, CHR 0x89, CHR 0xA7, CHR 0xE8, CHR 0xA1, CHR 0x8C, CHR 0xE5, CHR 0xA4,
      CHR 0xB1, CHR 0xE8, CHR 0xB4, CHR 0xA5, CHR 0x3A, CHR 0x20] @ e @ ''[/red]''"

definition panel_text :: "string \<Rightarrow> string" where
  "panel_text operation_name =
     ''[bold cyan]'' @ [CHR 0xE6, CHR 0x89, CHR 0xB9, CHR 0xE9, CHR 0x87, CHR 0x8F] @
     operation_name @ ''[/bold cyan]''"

definition progress_text :: "string \<Rightarrow> string" where
  "progress_text operation_name =
     ''[cyan]'' @ [CHR 0xE6, CHR 0x89, CHR 0xB9, CHR 0xE9, CHR 0x87, CHR 0x8F] @
     operation_name @ [CHR 0xE4, CHR 0xB8, CHR 0xAD] @ ''...''"

text \<open>
  \<open>connect_device\<close>: an exception of \<open>ConnectHandler\<close> is caught, the failure is printed
  and \<open>None\<close> is returned. The function raises (\<open>Inl\<close>, with the message) when that
  print raises, and when the descriptor has no \<open>host\<close>: the \<open>KeyError\<close> of the \<open>try\<close>
  block is raised again by the handler, which prints the host.
\<close>

definition connect_device ::
  "console \<Rightarrow> 'c network \<Rightarrow> device_info \<Rightarrow> string list \<Rightarrow> (string + 'c option) \<times> string list" where
  "connect_device con net device_info printed =
     (case device_info ''host'' of
        None \<Rightarrow> (Inl key_error_host, printed)
      | Some h \<Rightarrow>
          (case connect_handler net device_info of
             Inr connection \<Rightarrow> (Inr (Some connection), printed)
           | Inl e \<Rightarrow>
               (case console_print con (connect_failed_text h e) printed of
                  (Some m, printed') \<Rightarrow> (Inl m, printed')
                | (None, printed') \<Rightarrow> (Inr None, printed'))))"

text \<open>
  What leaves \<open>execute_on_device\<close> and \<open>batch_execute\<close> as an exception: the
  \<open>MarkupError\<close> of a print outside a \<open>try\<close> block, and the \<open>ValueError\<close> of the thread
  pool.
\<close>

datatype batch_error = ValueError | MarkupError

text \<open>
  The \<open>except Exception\<close> block of \<open>execute_on_device\<close>: it puts the status \<open>error\<close> and
  the exception's message into the result and prints the failure. That print is not
  inside a \<open>try\<close>, so when it raises, the exception leaves \<open>execute_on_device\<close>.
\<close>

definition except_block ::
  "console \<Rightarrow> 'd batch_result \<Rightarrow> string \<Rightarrow> string list
     \<Rightarrow> (batch_error + 'd batch_result) \<times> string list" where
  "except_block con result e printed =
     (case console_print con (failed_text (host result) e) printed of
        (Some m, printed') \<Rightarrow> (Inl MarkupError, printed')
      | (None, printed') \<Rightarrow> (Inr (result\<lparr>status := ''error'', message := e\<rparr>), printed'))"

text \<open>
  \<open>execute_on_device\<close>: everything after the initial record is inside one \<open>try\<close>, and
  every exception raised there, also one of a print, goes to the \<open>except\<close> block. The
  last print of the \<open>try\<close> block comes after the result was filled in, so the data stay
  in the result when that print raises. Returned with the outcome are the texts handed
  to the console, in order.
\<close>

definition execute_on_device ::
  "console \<Rightarrow> 'c network \<Rightarrow> device_info \<Rightarrow> ('c \<Rightarrow> 'd op_outcome) \<Rightarrow> string
     \<Rightarrow> (batch_error + 'd batch_result) \<times> string list" where
  "execute_on_device con net device_info op operation_name =
     (let result = \<lparr>host = (case device_info ''host'' of Some h \<Rightarrow> h | None \<Rightarrow> ''unknown''),
                    operation = operation_name, status = ''unknown'', message = [],
                    data = None\<rparr>
      in case console_print con (connecting_text (host result)) [] of
           (Some m, printed1) \<Rightarrow> except_block con result m printed1
         | (None, printed1) \<Rightarrow>
             (case connect_device con net device_info printed1 of
                (Inl e, printed2) \<Rightarrow> except_block con result e printed2
              | (Inr None, printed2) \<Rightarrow>
                  (Inr (result\<lparr>status := ''failed'', message := connect_failed_message\<rparr>), printed2)
              | (Inr (Some connection), printed2) \<Rightarrow>
                  (case console_print con (connected_text operation_name) printed2 of
                     (Some m, printed3) \<Rightarrow> except_block con result m printed3
                   | (None, printed3) \<Rightarrow>
                       (case op connection of
                          OpRaises e \<Rightarrow> except_block con result e printed3
                        | OpReturns out \<Rightarrow>
                            (case disconnect net connection of
                               Some e \<Rightarrow> except_block con result e printed3
                             | None \<Rightarrow>
                                 (case console_print con
                                         (done_text (host result) operation_name) printed3 of
                                    (Some m, printed4) \<Rightarrow>
                                      except_block con
                                        (result\<lparr>status := ''success'',
                                                message := operation_name @ success_suffix,
                                                data := Some out\<rparr>) m printed4
                                  | (None, printed4) \<Rightarrow>
                                      (Inr (result\<lparr>status := ''success'',
                                                    message := operation_name @ success_suffix,
                                                    data := Some out\<rparr>), printed4)))))))"

text \<open>
  \<open>as_completed\<close> yields every future once, in the order in which they finish. That
  order is not fixed by the program: \<open>sched\<close> picks, at each point, which of the pending
  ones finishes next.
\<close>

fun as_completed :: "(nat \<Rightarrow> nat) \<Rightarrow> nat \<Rightarrow> 'a list \<Rightarrow> 'a list" where
  "as_completed sched 0 pending = []"
| "as_completed sched (Suc n) pending =
     (if pending = [] then []
      else pending ! (sched n mod length pending) #
           as_completed sched n
             (take (sched n mod length pending) pending @
              drop (Suc (sched n mod length pending)) pending))"

text \<open>
  The loops that append each device's result to \<open>self.results\<close>: the first call that
  raised (in the order in which the results are taken) ends the loop with its exception.
\<close>

fun gather :: "('e + 'a) list \<Rightarrow> 'e + 'a list" where
  "gather [] = Inr []"
| "gather (Inl e # rest) = Inl e"
| "gather (Inr r # rest) = (case gather rest of Inl e \<Rightarrow> Inl e | Inr rs \<Rightarrow> Inr (r # rs))"

text \<open>
  \<open>s[:n]\<close> on UTF-8 text: the first \<open>n\<close> characters, a character being a byte that is
  not a continuation byte together with the continuation bytes that follow it.
\<close>

definition continuation :: "char \<Rightarrow> bool" where
  "continuation c = (128 \<le> (of_char c :: nat) \<and> (of_char c :: nat) < 192)"

fun utf8_take :: "nat \<Rightarrow> string \<Rightarrow> string" where
  "utf8_take n [] = []"
| "utf8_take n (c # cs) =
     (if continuation c then c # utf8_take n cs
      else case n of 0 \<Rightarrow> [] | Suc m \<Rightarrow> c # utf8_take m cs)"

text \<open>
  \<open>_display_summary\<close> prints a table with one row per result; the cells that hold the
  host and the first 50 characters of the message are rendered as markup. (The status
  cell is one of three constant texts.)
\<close>

definition summary_cells :: "'d batch_result \<Rightarrow> string list" where
  "summary_cells result = [host result, utf8_take 50 (message result)]"

definition display_summary :: "console \<Rightarrow> 'd batch_result list \<Rightarrow> batch_error option" where
  "display_summary con device_results =
     (if list_all (\<lambda>cell. con cell = None) (concat (map summary_cells device_results)) then None
      else Some MarkupError)"

text \<open>
  \<open>batch_execute\<close>: an empty device list returns an empty list at once. Otherwise the
  title panel is printed. In parallel mode the progress bar renders its description
  when the task is added, the thread pool refuses a \<open>max_workers\<close> that is not positive
  (\<open>ValueError\<close>), each device's operation is a future and the results are taken as the
  futures finish; \<open>future.result()\<close> raises what the call raised. In sequential mode the
  devices are processed in order. The summary is printed before the results are
  returned.
\<close>

definition batch_execute ::
  "console \<Rightarrow> 'c network \<Rightarrow> device_info list \<Rightarrow> ('c \<Rightarrow> 'd op_outcome) \<Rightarrow> string \<Rightarrow> bool \<Rightarrow> int
     \<Rightarrow> (nat \<Rightarrow> nat) \<Rightarrow> batch_error + 'd batch_result list" where
  "batch_execute con net devices op operation_name par max_workers sched =
     (if devices = [] then Inr []
      else
        (case con (panel_text operation_name) of
           Some m \<Rightarrow> Inl MarkupError
         | None \<Rightarrow>
             (case (if par then
                      (case con (progress_text operation_name) of
                         Some m \<Rightarrow> Inl MarkupError
                       | None \<Rightarrow>
                           if max_workers \<le> 0 then Inl ValueError
                           else gather (as_completed sched (length devices)
                                  (map (\<lambda>device. fst (execute_on_device con net device op
                                                        operation_name)) devices)))
                    else gather (map (\<lambda>device. fst (execute_on_device con net device op
                                                     operation_name)) devices)) of
                Inl e \<Rightarrow> Inl e
              | Inr device_results \<Rightarrow>
                  (case display_summary con device_results of
                     Some e \<Rightarrow> Inl e
                   | None \<Rightarrow> Inr device_results))))"

text \<open>
  A run of \<open>execute_on_device\<close> in which every print succeeds: the console that prints
  every text, the texts such a run hands to the console, and the record it returns.
  \<open>batch_texts\<close> lists the texts of a whole batch in which every print succeeds.
\<close>

definition quiet :: console where
  "quiet text_arg = None"

definition device_texts ::
  "'c network \<Rightarrow> device_info \<Rightarrow> ('c \<Rightarrow> 'd op_outcome) \<Rightarrow> string \<Rightarrow> string list" where
  "device_texts net device_info op operation_name =
     snd (execute_on_device quiet net device_info op operation_name)"

definition device_record ::
  "'c network \<Rightarrow> device_info \<Rightarrow> ('c \<Rightarrow> 'd op_outcome) \<Rightarrow> string \<Rightarrow> 'd batch_result" where
  "device_record net device_info op operation_name =
     projr (fst (execute_on_device quiet net device_info op operation_name))"

definition batch_texts ::
  "'c network \<Rightarrow> device_info list \<Rightarrow> ('c \<Rightarrow> 'd op_outcome) \<Rightarrow> string \<Rightarrow> bool \<Rightarrow> string list" where
  "batch_texts net devices op operation_name par =
     (if devices = [] then []
      else panel_text operation_name #
           (if par then [progress_text operation_name] else []) @
           concat (map (\<lambda>device. device_texts net device op operation_name) devices) @
           concat (map (\<lambda>device. summary_cells (device_record net device op operation_name))
                     devices))"



section \<open>Example sessions, steps and tasks\<close>

text \<open>
  A shell that answers every command, one that rejects a given command, a step of plain
  commands with the default options, a loop over three items, the same loop with a
  confirmation prompt, the empty world, and a task that runs the loop and then a command
  that names the loop variable.
\<close>

definition echo_shell :: session where
  "echo_shell = \<lparr>mode = Shell, respond = (\<lambda>h t c. Replies c [])\<rparr>"

definition picky_shell :: "string \<Rightarrow> session" where
  "picky_shell bad =
     \<lparr>mode = Shell, respond = (\<lambda>h t c. if c = bad then Raises ''rejected'' else Replies c [])\<rparr>"

definition plain_step :: "string list \<Rightarrow> step" where
  "plain_step cmds = Step cmds None None None 30 True False"

definition vlan_loop :: step where
  "vlan_loop = Step [''vlan {{item}}''] None
     (Some \<lparr>items = ItemList [''a'', ''b'', ''c''], item_var = ''item''\<rparr>) None 30 True False"


definition fresh :: world where
  "fresh = \<lparr>sent = [], stdin = []\<rparr>"

definition loop_then_show :: task where
  "loop_then_show = \<lparr>name = ''vlans'', variables = [], steps = [vlan_loop, plain_step [''show {{item}}'']]\<rparr>"

text \<open>
  A step with a rollback list of single-command steps, a task of three steps that
  configure VLANs, and the two-step task with a conditional second step.
\<close>

definition guarded_step :: "string list \<Rightarrow> string list \<Rightarrow> step" where
  "guarded_step cmds undo = Step cmds None None (Some (map (\<lambda>c. plain_step [c]) undo)) 30 True False"

definition vlan_task :: "step \<Rightarrow> task" where
  "vlan_task third =
     \<lparr>name = ''vlans'', variables = [],
      steps = [guarded_step [''vlan 10''] [''undo vlan 10''],
               guarded_step [''vlan 20''] [''undo vlan 20''], third]\<rparr>"

definition enable_task :: task where
  "enable_task =
     \<lparr>name = ''port'', variables = [(''enable'', ''no'')],
      steps = [plain_step [''interface g0/1'', ''no shutdown''],
               Step [''description up''] (Some \<lparr>equals = Some [''{{enable}}'', ''yes''], exists = None\<rparr>)
                 None None 30 True False]\<rparr>"

text \<open>
  A network of three devices: the second refuses the connection, and the operation
  raises on the third. \<open>strict_console\<close> prints every text but those that hold the
  closing tag \<open>[/x]\<close>, and \<open>garbled\<close> is an operation whose exception quotes such a tag.
\<close>

definition lab_net :: "string network" where
  "lab_net =
     \<lparr>connect_handler = (\<lambda>d. case d ''host'' of
                               None \<Rightarrow> Inl ''no host''
                             | Some h \<Rightarrow> if h = ''10.0.0.2'' then Inl ''timed out'' else Inr h),
      disconnect = (\<lambda>c. None)\<rparr>"

definition show_version :: "string \<Rightarrow> string op_outcome" where
  "show_version c = (if c = ''10.0.0.3'' then OpRaises ''channel closed'' else OpReturns (''version of '' @ c))"

definition lab_devices :: "device_info list" where
  "lab_devices = [[''host'' \<mapsto> ''10.0.0.1''], [''host'' \<mapsto> ''10.0.0.2''], [''host'' \<mapsto> ''10.0.0.3'']]"

definition strict_console :: console where
  "strict_console text_arg =
     (if py_in ''[/x]'' text_arg then Some ''closing tag [/x] does not match any open tag''
      else None)"

definition garbled :: "string \<Rightarrow> string op_outcome" where
  "garbled c = OpRaises ''bad reply [/x] from device''"

text \<open>
  The relation between a state of the read loop and what the loop returns from it: the
  chunks read from then on make up the rest of the returned text, and one key was sent
  for each of them that holds the pagination marker.
\<close>

definition framed :: "string \<Rightarrow> shell_state \<Rightarrow> string \<times> shell_state \<Rightarrow> bool" where
  "framed out st R =
     (\<exists>cs. chunks_read (snd R) = chunks_read st @ cs \<and> fst R = out @ concat cs \<and>
           keys_sent (snd R) =
             keys_sent st @ replicate (length (filter (py_in more_marker) cs)) '' '')"

text \<open>
  Shells for the read loop: one that pages once, one whose first chunk holds two
  markers, and one that delivers the marker split over two chunks. \<open>opened\<close> is a shell
  at time 0 on which nothing was read or sent.
\<close>

definition opened :: shell_state where
  "opened = \<lparr>now = 0, chunks_read = [], keys_sent = []\<rparr>"

definition paged_shell :: shell where
  "paged_shell st =
     (case length (chunks_read st) of
        0 \<Rightarrow> Some ''display vlan  1 default  10 office  ---- More ----''
      | Suc 0 \<Rightarrow> if keys_sent st = [] then None else Some ''  20 voice  30 guest <H3C>''
      | Suc (Suc n) \<Rightarrow> None)"

definition crowded_shell :: shell where
  "crowded_shell st =
     (case length (chunks_read st) of
        0 \<Rightarrow> Some ''display vlan  1 default  ---- More ----  10 office  ---- More ----''
      | Suc 0 \<Rightarrow> if keys_sent st = [] then None else Some ''  20 voice  30 guest <H3C>''
      | Suc (Suc n) \<Rightarrow> None)"

definition split_shell :: shell where
  "split_shell st =
     (case length (chunks_read st) of
        0 \<Rightarrow> Some ''display vlan  1 default  10 office  ---- Mo''
      | Suc 0 \<Rightarrow> Some ''re ----''
      | Suc (Suc 0) \<Rightarrow> Some ''  20 voice  30 guest <H3C>''
      | Suc (Suc (Suc n)) \<Rightarrow> None)"

text \<open>
  \<open>timeout_shown env start_time tmo N\<close>: from its \<open>N\<close>-th reading on, the clock shows
  that the timeout has passed since \<open>start_time\<close>.
\<close>

definition timeout_shown :: "clocked_env \<Rightarrow> real \<Rightarrow> int \<Rightarrow> nat \<Rightarrow> bool" where
  "timeout_shown env start_time tmo N = (\<forall>n\<ge>N. of_int tmo \<le> time_at env n - start_time)"

text \<open>
  Two lines read on a clock on which every sleep takes the time requested and nothing
  else takes time, with exact differences. On \<open>silent_line\<close> nothing ever arrives: the
  loop reads the clock twice per pass of 0.2 s. On \<open>late_line\<close> a page with the marker
  is there at once, the rest of the output with the prompt arrives after 0.9 s, and
  more data is ready after that; the readings are those of the run of the loop with a
  timeout of 1 s (sleeps of 0.3 s, three times 0.2 s, 0.5 s and 0.2 s). \<open>at_rest\<close> is
  the state before the first reading.
\<close>

definition at_rest :: clocked_state where
  "at_rest = \<lparr>readings = 0, chunks_got = [], keys_typed = [], naps = []\<rparr>"

definition silent_line :: clocked_env where
  "silent_line =
     \<lparr>time_at = (\<lambda>n. if n < 2 then 0 else real ((n - 2) div 2) / 5),
      rounds_to = (\<lambda>a b n. False),
      arrival = (\<lambda>st. None)\<rparr>"

definition late_line :: clocked_env where
  "late_line =
     \<lparr>time_at = (\<lambda>n. if n < 14
                      then [0, 0, 0, 0, 3 / 10, 3 / 10, 5 / 10, 5 / 10, 7 / 10, 7 / 10,
                            9 / 10, 9 / 10, 14 / 10, 16 / 10] ! n
                      else 16 / 10 + real (n - 13) / 5),
      rounds_to = (\<lambda>a b n. False),
      arrival = (\<lambda>st. case length (chunks_got st) of
                         0 \<Rightarrow> Some ''display vlan  1 default  10 office  ---- More ----''
                       | Suc 0 \<Rightarrow> if readings st < 11 then None
                                  else Some ''  20 voice  30 guest <H3C>''
                       | Suc (Suc k) \<Rightarrow> Some ''  40 lab'')\<rparr>"


section \<open>Substitution: properties\<close>

lemma py_in_sublist: "py_in sub s \<longleftrightarrow> sublist sub s"
  by (induction s) (auto simp: sublist_Cons_right)

lemma py_replace_absent: "\<not> py_in old s \<Longrightarrow> py_replace old new s = s"
  by (induction s) auto

lemma resolve_variables_absent:
  "list_all (\<lambda>(k, v). \<not> py_in (placeholder k) text) vars \<Longrightarrow> resolve_variables text vars = text"
  by (induction vars) (auto simp: py_replace_absent)

lemma py_replace_skip:
  assumes "old \<noteq> []" "hd old \<notin> set s"
  shows "py_replace old new (s @ t) = s @ py_replace old new t"
  using assms
proof (induction s)
  case Nil
  then show ?case by simp
next
  case (Cons c s)
  then have "\<not> prefix old (c # s @ t)"
    by (cases old) auto
  with Cons show ?case by simp
qed

lemma py_replace_hit:
  assumes "old \<noteq> []"
  shows "py_replace old new (old @ t) = new @ py_replace old new t"
proof (cases old)
  case Nil
  with assms show ?thesis by simp
next
  case (Cons a as)
  then show ?thesis by simp
qed

lemma placeholder_Cons: "placeholder k = CHR ''{'' # CHR ''{'' # k @ ''}}''"
  by (simp add: placeholder_def)

lemma name_prefix_eq:
  assumes "brace_free k" "brace_free n" "prefix (k @ ''}}'') (n @ ''}}'' @ t)"
  shows "k = n"
  using assms
proof (induction k arbitrary: n)
  case Nil
  then show ?case by (cases n) (auto simp: brace_free_def)
next
  case (Cons a k)
  then show ?case by (cases n) (auto simp: brace_free_def)
qed

lemma py_replace_other:
  assumes "brace_free k" "brace_free n" "n \<noteq> k"
  shows "py_replace (placeholder k) v (placeholder n @ t) = placeholder n @ py_replace (placeholder k) v t"
proof -
  let ?P = "placeholder k"
  let ?rest = "n @ ''}}''"
  have no0: "\<not> prefix ?P (CHR ''{'' # CHR ''{'' # ?rest @ t)"
    using name_prefix_eq [OF assms(1,2), of t] assms(3) by (auto simp: placeholder_Cons)
  have no1: "\<not> prefix ?P (CHR ''{'' # ?rest @ t)"
    using assms(2) by (cases n) (auto simp: placeholder_Cons brace_free_def)
  have skip: "py_replace ?P v (?rest @ t) = ?rest @ py_replace ?P v t"
    using assms(2) by (intro py_replace_skip) (auto simp: placeholder_Cons brace_free_def)
  have "py_replace ?P v (CHR ''{'' # CHR ''{'' # ?rest @ t)
        = CHR ''{'' # py_replace ?P v (CHR ''{'' # ?rest @ t)"
    using no0 by (simp add: placeholder_Cons)
  also have "\<dots> = CHR ''{'' # CHR ''{'' # py_replace ?P v (?rest @ t)"
    using no1 by (simp add: placeholder_Cons)
  finally show ?thesis
    using skip by (simp add: placeholder_Cons)
qed

lemma py_replace_render:
  assumes "brace_free k" "list_all plain_piece ps"
  shows "py_replace (placeholder k) v (render ps) = render (map (subst_piece k v) ps)"
  using assms(2)
proof (induction ps)
  case Nil
  then show ?case by (simp add: placeholder_Cons)
next
  case (Cons p ps)
  show ?case
  proof (cases p)
    case (Lit s)
    with Cons show ?thesis
      by (simp add: py_replace_skip placeholder_Cons)
  next
    case (Var n)
    show ?thesis
    proof (cases "n = k")
      case True
      have "placeholder k \<noteq> []" by (simp add: placeholder_Cons)
      from py_replace_hit [OF this] Cons Var True show ?thesis by simp
    next
      case False
      with Cons Var assms(1) show ?thesis
        by (simp add: py_replace_other)
    qed
  qed
qed

lemma plain_subst_piece:
  "CHR ''{'' \<notin> set v \<Longrightarrow> list_all plain_piece ps \<Longrightarrow> list_all plain_piece (map (subst_piece k v) ps)"
  by (induction ps) (auto split: piece.splits elim: plain_piece.elims)

lemma bound_subst_piece:
  "bound_piece rest (subst_piece k v p) = bound_piece ((k, v) # rest) p"
  by (cases p) auto

lemma resolve_variables_render:
  assumes "list_all plain_binding vars" "list_all plain_piece ps"
  shows "resolve_variables (render ps) vars = concat (map (bound_piece vars) ps)"
  using assms
proof (induction vars arbitrary: ps)
  case Nil
  show ?case by (induction ps rule: render.induct) (auto simp: placeholder_def)
next
  case (Cons b vars)
  obtain k v where b: "b = (k, v)" by (cases b)
  from Cons.prems b have k: "brace_free k" and v: "CHR ''{'' \<notin> set v"
    and rest: "list_all plain_binding vars" by auto
  have "resolve_variables (render ps) (b # vars)
        = resolve_variables (render (map (subst_piece k v) ps)) vars"
    using b py_replace_render [OF k Cons.prems(2)] by simp
  also have "\<dots> = concat (map (bound_piece vars) (map (subst_piece k v) ps))"
    using Cons.IH [OF rest plain_subst_piece [OF v Cons.prems(2)]] .
  also have "\<dots> = concat (map (bound_piece (b # vars)) ps)"
    by (simp add: b bound_subst_piece comp_def)
  finally show ?case .
qed

text \<open>
  C5. Substitution applies the bindings one after another, in the dictionary's order.
  On a template made of literal text without an opening brace and of placeholders whose
  names hold no brace, with bindings whose keys hold no brace and whose values hold no
  opening brace, every placeholder of a bound name is replaced by its bound value and
  every other placeholder stays as it is. A text in which no bound placeholder occurs is
  returned unchanged, whatever else it contains. No error is raised in either case.
\<close>

theorem resolve_variables_template:
  "(list_all plain_binding vars \<and> list_all plain_piece ps \<longrightarrow>
      resolve_variables (render ps) vars = concat (map (bound_piece vars) ps)) \<and>
   (list_all (\<lambda>(k, v). \<not> py_in (placeholder k) t) vars \<longrightarrow> resolve_variables t vars = t)"
  using resolve_variables_render [of vars ps] resolve_variables_absent [of t vars]
  by blast

theorem resolve_variables_template_witness:
  "list_all plain_binding [(''id'', ''100'')] \<and>
   list_all plain_piece [Lit ''show vlan '', Var ''id''] \<and>
   render [Lit ''show vlan '', Var ''id''] = ''show vlan {{id}}'' \<and>
   resolve_variables ''show vlan {{id}}'' [(''id'', ''100'')] = ''show vlan 100'' \<and>
   list_all (\<lambda>(k, v). \<not> py_in (placeholder k) ''show vlan {{missing}}'') [(''id'', ''100'')] \<and>
   resolve_variables ''show vlan {{missing}}'' [(''id'', ''100'')] = ''show vlan {{missing}}''"
  using resolve_variables_template
    [of "[(''id'', ''100'')]" "[Lit ''show vlan '', Var ''id'']" "''show vlan {{missing}}''"]
  by (simp add: placeholder_def brace_free_def)

text \<open>
  The claim as stated fails when a bound value itself holds a placeholder: the value put
  in place of \<open>{{a}}\<close> is substituted again by a later binding, and whether that happens
  depends on the order of the bindings. It also fails on a nested template, where a
  substitution completes the placeholder of another bound name.
\<close>

theorem resolve_variables_chained_counterexample:
  "render [Var ''a''] = ''{{a}}'' \<and>
   bound_piece [(''a'', ''{{b}}''), (''b'', ''1'')] (Var ''a'') = ''{{b}}'' \<and>
   resolve_variables ''{{a}}'' [(''a'', ''{{b}}''), (''b'', ''1'')] = ''1'' \<and>
   resolve_variables ''{{a}}'' [(''b'', ''1''), (''a'', ''{{b}}'')] = ''{{b}}'' \<and>
   resolve_variables ''{{x{{a}}}}'' [(''a'', ''y''), (''xy'', ''z'')] = ''z''"
  by (simp add: placeholder_def)


section \<open>Command dispatch: properties\<close>






lemma execute_commands_run:
  assumes "execute_commands sess cmds tmo soe save_config cnf w = (Inr rs, w')"
    and "rs \<noteq> [] \<or> \<not> cnf"
  shows "\<exists>w1. dispatch_loop sess tmo soe cmds [] (if cnf then w\<lparr>stdin := tl (stdin w)\<rparr> else w) = (rs, w1) \<and>
            (if save_config then w' = snd (execute_command sess ''save force'' 60 w1) else w' = w1)"
  using assms
  by (auto simp: execute_commands_def Let_def split: if_splits list.splits prod.splits)




section \<open>Loops: properties\<close>

lemma dict_set_twice: "dict_set (dict_set vars k a) k b = dict_set vars k b"
  by (induction vars) auto

lemma map_of_dict_set: "map_of (dict_set vars k v) k = Some v"
  by (induction vars) auto

lemma map_of_dict_set_other: "k' \<noteq> k \<Longrightarrow> map_of (dict_set vars k v) k' = map_of vars k'"
  by (induction vars) auto





lemma loop_over_binding:
  assumes "loop_over sess step var xs vars w = (res, vars', w')"
  shows "(xs = [] \<longrightarrow> vars' = vars) \<and>
         (xs \<noteq> [] \<longrightarrow> vars' \<in> (\<lambda>x. dict_set vars var x) ` set xs) \<and>
         (xs \<noteq> [] \<and> (\<exists>r. res = Inr r \<and> step_success r) \<longrightarrow> vars' = dict_set vars var (last xs))"
  using assms
proof (induction xs arbitrary: vars w)
  case Nil
  then show ?case by simp
next
  case (Cons x xs)
  obtain sub w1 where ex: "execute_commands_in_step sess step (dict_set vars var x) w = (sub, w1)"
    by (cases "execute_commands_in_step sess step (dict_set vars var x) w")
  show ?case
  proof (cases sub)
    case (Inl e)
    with Cons.prems ex show ?thesis by auto
  next
    case (Inr r)
    show ?thesis
    proof (cases "step_success r")
      case False
      with Cons.prems ex Inr show ?thesis by auto
    next
      case True
      with Cons.prems ex Inr
      have "loop_over sess step var xs (dict_set vars var x) w1 = (res, vars', w')" by simp
      from Cons.IH [OF this] show ?thesis
        by (cases "xs = []") (auto simp: dict_set_twice)
    qed
  qed
qed

text \<open>The definitions unfolded to run a concrete task.\<close>

lemmas run_defs = execute_step_def execute_commands_in_step_def execute_commands_def
  execute_command_def save_rewrite_def lower_def lower_char_def execute_rollback_def
  execute_task_def evaluate_condition_def placeholder_def




text \<open>
  C10. A loop step assigns the loop variable in the dictionary it was given. When the
  step ends, whatever its outcome, the dictionary is the initial one with the loop
  variable set to one of the items; after a successful loop it is set to the last item,
  looking the variable up yields that item, and the remaining steps of the task run
  with that dictionary.
\<close>

theorem loop_variable_persists:
  assumes "loop step = Some lc"
    and "(case condition step of None \<Rightarrow> Inr True | Some c \<Rightarrow> evaluate_condition c vars) = Inr True"
    and "iterate (resolve_variable (items lc) vars) \<noteq> []"
    and "execute_step sess step vars w = (res, vars', w')"
  shows "vars' \<in> (\<lambda>x. dict_set vars (item_var lc) x) ` set (iterate (resolve_variable (items lc) vars)) \<and>
         (\<forall>r. res = Inr r \<and> step_success r \<longrightarrow>
            vars' = dict_set vars (item_var lc) (last (iterate (resolve_variable (items lc) vars))) \<and>
            map_of vars' (item_var lc) = Some (last (iterate (resolve_variable (items lc) vars))) \<and>
            run_steps sess (step # rest) vars result w =
              run_steps sess rest vars'
                (result\<lparr>results := results result @ [r],
                        steps_completed := steps_completed result + 1\<rparr>) w')"
proof -
  let ?xs = "iterate (resolve_variable (items lc) vars)"
  have "loop_over sess step (item_var lc) ?xs vars w = (res, vars', w')"
    using assms(1,2,4) by (simp add: execute_step_def)
  from loop_over_binding [OF this] assms(3)
  have a: "vars' \<in> (\<lambda>x. dict_set vars (item_var lc) x) ` set ?xs"
    and b: "(\<exists>r. res = Inr r \<and> step_success r) \<longrightarrow> vars' = dict_set vars (item_var lc) (last ?xs)"
    by auto
  show ?thesis
    using a b assms(4) by (auto simp: map_of_dict_set)
qed

theorem loop_variable_persists_witness:
  "loop vlan_loop = Some \<lparr>items = ItemList [''a'', ''b'', ''c''], item_var = ''item''\<rparr> \<and>
   condition vlan_loop = None \<and>
   fst (snd (execute_step echo_shell vlan_loop [] fresh)) = [(''item'', ''c'')] \<and>
   fst (snd (execute_task echo_shell loop_then_show fresh)) = [(''item'', ''c'')] \<and>
   sent (snd (snd (execute_task echo_shell loop_then_show fresh)))
     = [''vlan a'', ''vlan b'', ''vlan c'', ''show c'']"
  using loop_variable_persists [of vlan_loop "\<lparr>items = ItemList [''a'', ''b'', ''c''], item_var = ''item''\<rparr>"
      "[]" echo_shell fresh]
  by (simp add: run_defs vlan_loop_def echo_shell_def fresh_def loop_then_show_def plain_step_def)

section \<open>Tasks: properties\<close>

lemma execute_commands_in_step_not_skipped:
  "execute_commands_in_step sess s vars w = (Inr r, w') \<Longrightarrow> \<not> skipped r \<and> step_output r = None"
  by (auto simp: execute_commands_in_step_def split: prod.splits sum.splits)

text \<open>
  C8. A task of two steps whose first step is a plain command step that succeeds and
  whose second step carries an equality condition with operands that resolve to
  different texts: the second step is skipped (its record has \<open>skipped\<close> set and counts
  as a success, nothing is sent for it), the first step's record is a success that is
  not skipped, both steps count as completed and the task's \<open>success\<close> is true.
\<close>

theorem false_condition_skips_step:
  assumes "condition s1 = None" and "loop s1 = None"
    and "execute_commands_in_step sess s1 vars w = (Inr r1, w1)" and "step_success r1"
    and "condition s2 = Some c" and "equals c = Some [l, r]"
    and "resolve_variables l vars \<noteq> resolve_variables r vars"
  shows "execute_task sess \<lparr>name = n, variables = vars, steps = [s1, s2]\<rparr> w =
           (\<lparr>task_name = n, task_success = True, steps_completed = 2, steps_total = 2,
             results = [r1, \<lparr>step_success = True, step_output = Some [], skipped = True,
                             step_results = None\<rparr>],
             task_error = None\<rparr>, vars, w1) \<and>
         \<not> skipped r1"
proof -
  have s1: "execute_step sess s1 vars w = (Inr r1, vars, w1)"
    using assms(1-3) by (simp add: execute_step_def)
  have s2: "execute_step sess s2 vars w1 =
              (Inr \<lparr>step_success = True, step_output = Some [], skipped = True,
                    step_results = None\<rparr>, vars, w1)"
    using assms(5-7) by (simp add: execute_step_def evaluate_condition_def)
  show ?thesis
    using s1 s2 assms(4) execute_commands_in_step_not_skipped [OF assms(3)]
    by (simp add: execute_task_def)
qed

theorem false_condition_skips_step_witness:
  "steps enable_task = [plain_step [''interface g0/1'', ''no shutdown''],
                        Step [''description up''] (Some \<lparr>equals = Some [''{{enable}}'', ''yes''], exists = None\<rparr>)
                          None None 30 True False] \<and>
   resolve_variables ''{{enable}}'' (variables enable_task) = ''no'' \<and>
   task_success (fst (execute_task echo_shell enable_task fresh)) \<and>
   map step_success (results (fst (execute_task echo_shell enable_task fresh))) = [True, True] \<and>
   map skipped (results (fst (execute_task echo_shell enable_task fresh))) = [False, True] \<and>
   sent (snd (snd (execute_task echo_shell enable_task fresh))) = [''interface g0/1'', ''no shutdown'']"
  using false_condition_skips_step [of "plain_step [''interface g0/1'', ''no shutdown'']" echo_shell
      "[(''enable'', ''no'')]" fresh _ _
      "Step [''description up''] (Some \<lparr>equals = Some [''{{enable}}'', ''yes''], exists = None\<rparr>)
                          None None 30 True False"
      "\<lparr>equals = Some [''{{enable}}'', ''yes''], exists = None\<rparr>" "''{{enable}}''" "''yes''" "''port''"]
  by (simp add: run_defs enable_task_def echo_shell_def fresh_def plain_step_def)

text \<open>
  C1. When the first two steps of a task succeed and the third fails, \<open>execute_task\<close>
  runs the rollback list of the failed step itself, last entry first, when that step
  has one, and nothing otherwise; then it stops: the later steps do not run, two steps
  count as completed and \<open>success\<close> is false. The rollback lists of the two completed
  steps play no part in the result.
\<close>

theorem failed_step_runs_own_rollback:
  assumes "execute_step sess s1 vars w = (Inr r1, vars1, w1)" and "step_success r1"
    and "execute_step sess s2 vars1 w1 = (Inr r2, vars2, w2)" and "step_success r2"
    and "execute_step sess s3 vars2 w2 = (Inr r3, vars3, w3)" and "\<not> step_success r3"
  shows "execute_task sess \<lparr>name = n, variables = vars, steps = s1 # s2 # s3 # post\<rparr> w =
           (case rollback s3 of
              None \<Rightarrow>
                (\<lparr>task_name = n, task_success = False, steps_completed = 2,
                  steps_total = 3 + length post, results = [r1, r2, r3], task_error = None\<rparr>,
                 vars3, w3)
            | Some rollback_steps \<Rightarrow>
                (case run_each sess (rev rollback_steps) vars3 w3 of
                   (exc, vars4, w4) \<Rightarrow>
                     (\<lparr>task_name = n, task_success = False, steps_completed = 2,
                       steps_total = 3 + length post, results = [r1, r2, r3], task_error = exc\<rparr>,
                      vars4, w4)))"
  using assms
  by (auto simp: execute_task_def execute_rollback_def split: option.splits prod.splits)

theorem failed_step_runs_own_rollback_witness:
  "map step_success (results (fst (execute_task (picky_shell ''vlan 30'')
       (vlan_task (guarded_step [''vlan 30''] [''undo a'', ''undo b''])) fresh))) = [True, True, False] \<and>
   rollback (guarded_step [''vlan 30''] [''undo a'', ''undo b''])
     = Some [plain_step [''undo a''], plain_step [''undo b'']] \<and>
   sent (snd (snd (execute_task (picky_shell ''vlan 30'')
       (vlan_task (guarded_step [''vlan 30''] [''undo a'', ''undo b''])) fresh)))
     = [''vlan 10'', ''vlan 20'', ''vlan 30'', ''undo b'', ''undo a'']"
  using failed_step_runs_own_rollback [of "picky_shell ''vlan 30''"
      "guarded_step [''vlan 10''] [''undo vlan 10'']" "[]" fresh _ _ _
      "guarded_step [''vlan 20''] [''undo vlan 20'']" _ _ _
      "guarded_step [''vlan 30''] [''undo a'', ''undo b'']" _ _ _ "''vlans''" "[]"]
  by (simp add: run_defs vlan_task_def guarded_step_def picky_shell_def fresh_def plain_step_def)

text \<open>
  The claim as stated fails: the first two steps complete and have rollback lists, the
  third step fails, and neither rollback list is run.
\<close>

theorem completed_steps_not_rolled_back_counterexample:
  "steps (vlan_task (plain_step [''vlan 30''])) =
     [guarded_step [''vlan 10''] [''undo vlan 10''],
      guarded_step [''vlan 20''] [''undo vlan 20''], plain_step [''vlan 30'']] \<and>
   rollback (guarded_step [''vlan 10''] [''undo vlan 10'']) = Some [plain_step [''undo vlan 10'']] \<and>
   rollback (guarded_step [''vlan 20''] [''undo vlan 20'']) = Some [plain_step [''undo vlan 20'']] \<and>
   map step_success (results (fst (execute_task (picky_shell ''vlan 30'')
       (vlan_task (plain_step [''vlan 30''])) fresh))) = [True, True, False] \<and>
   sent (snd (snd (execute_task (picky_shell ''vlan 30'') (vlan_task (plain_step [''vlan 30''])) fresh)))
     = [''vlan 10'', ''vlan 20'', ''vlan 30'']"
  by (simp add: run_defs vlan_task_def guarded_step_def picky_shell_def fresh_def plain_step_def)

section \<open>Batch execution: properties\<close>

lemma as_completed_mset:
  "n = length xs \<Longrightarrow> mset (as_completed sched n xs) = mset xs"
proof (induction n arbitrary: xs)
  case 0
  then show ?case by simp
next
  case (Suc n)
  then have ne: "xs \<noteq> []" by auto
  let ?i = "sched n mod length xs"
  from ne have i: "?i < length xs" by simp
  have len: "n = length (take ?i xs @ drop (Suc ?i) xs)"
    using Suc.prems i by simp
  have "mset xs = mset (take ?i xs @ xs ! ?i # drop (Suc ?i) xs)"
    using id_take_nth_drop [OF i] by simp
  then have "mset xs = add_mset (xs ! ?i) (mset (take ?i xs @ drop (Suc ?i) xs))"
    by simp
  with Suc.IH [OF len] ne show ?case by simp
qed

lemma as_completed_length: "n = length xs \<Longrightarrow> length (as_completed sched n xs) = n"
  using as_completed_mset [of n xs sched] by (metis size_mset)

lemma as_completed_map:
  "as_completed sched n (map f xs) = map f (as_completed sched n xs)"
proof (induction n arbitrary: xs)
  case 0
  then show ?case by simp
next
  case (Suc n)
  show ?case
  proof (cases "xs = []")
    case True
    then show ?thesis by simp
  next
    case False
    let ?i = "sched n mod length xs"
    from False have i: "?i < length xs" by simp
    have "take ?i (map f xs) @ drop (Suc ?i) (map f xs) = map f (take ?i xs @ drop (Suc ?i) xs)"
      by (simp add: take_map drop_map)
    with Suc.IH [of "take ?i xs @ drop (Suc ?i) xs"] False i show ?thesis
      by simp
  qed
qed

lemma gather_returned: "gather (map Inr rs) = Inr rs"
  by (induction rs) simp_all

lemma execute_on_device_quiet:
  "\<exists>r. fst (execute_on_device quiet net d op nm) = Inr r"
  by (auto simp: execute_on_device_def connect_device_def except_block_def console_print_def
      quiet_def Let_def split: option.splits sum.splits op_outcome.splits)

lemma execute_on_device_printed:
  assumes "list_all (\<lambda>t. con t = None) (device_texts net d op nm)"
  shows "execute_on_device con net d op nm = (Inr (device_record net d op nm), device_texts net d op nm)"
  using assms
  unfolding device_texts_def device_record_def
  by (auto simp: execute_on_device_def connect_device_def except_block_def console_print_def
      quiet_def Let_def split: option.splits sum.splits op_outcome.splits)

lemma device_record_status:
  "status (device_record net d op nm) = ''success'' \<or>
   status (device_record net d op nm) = ''failed'' \<or>
   status (device_record net d op nm) = ''error''"
  unfolding device_record_def
  by (auto simp: execute_on_device_def connect_device_def except_block_def console_print_def
      quiet_def Let_def split: option.splits sum.splits op_outcome.splits)

lemma batch_texts_devices:
  assumes "list_all (\<lambda>t. con t = None) (batch_texts net devices op nm par)"
  shows "map (\<lambda>d. fst (execute_on_device con net d op nm)) devices
           = map Inr (map (\<lambda>d. device_record net d op nm) devices)"
proof -
  have "fst (execute_on_device con net d op nm) = Inr (device_record net d op nm)"
    if d: "d \<in> set devices" for d
  proof -
    from d have ne: "devices \<noteq> []" by auto
    with assms d have "list_all (\<lambda>t. con t = None) (device_texts net d op nm)"
      by (auto simp: batch_texts_def list_all_iff)
    from execute_on_device_printed [OF this] show ?thesis by simp
  qed
  then show ?thesis by simp
qed

lemma batch_texts_summary:
  assumes "list_all (\<lambda>t. con t = None) (batch_texts net devices op nm par)"
    and "set rs = set (map (\<lambda>d. device_record net d op nm) devices)"
  shows "display_summary con rs = None"
proof -
  have "con cell = None" if r: "r \<in> set rs" and cell: "cell \<in> set (summary_cells r)" for r cell
  proof -
    from r assms(2) obtain d where d: "d \<in> set devices" and rd: "r = device_record net d op nm"
      by auto
    from d have ne: "devices \<noteq> []" by auto
    with assms(1) d cell rd show ?thesis
      by (auto simp: batch_texts_def list_all_iff)
  qed
  then show ?thesis
    by (auto simp: display_summary_def list_all_iff)
qed

text \<open>The definitions unfolded to run a concrete batch.\<close>

lemmas batch_fixture_defs = batch_execute_def batch_texts_def device_texts_def device_record_def
  execute_on_device_def connect_device_def except_block_def console_print_def
  display_summary_def summary_cells_def continuation_def quiet_def strict_console_def
  lab_net_def lab_devices_def show_version_def garbled_def connecting_text_def
  connect_failed_text_def connected_text_def done_text_def failed_text_def panel_text_def
  progress_text_def connect_failed_message_def success_suffix_def key_error_host_def

lemma batch_execute_returns:
  assumes "par \<longrightarrow> 0 < max_workers"
    and "list_all (\<lambda>t. con t = None) (batch_texts net devices op nm par)"
  shows "\<exists>rs. batch_execute con net devices op nm par max_workers sched = Inr rs \<and>
              length rs = length devices \<and>
              mset rs = mset (map (\<lambda>d. device_record net d op nm) devices) \<and>
              (\<not> par \<longrightarrow> rs = map (\<lambda>d. device_record net d op nm) devices)"
proof (cases "devices = []")
  case True
  then show ?thesis by (simp add: batch_execute_def)
next
  case False
  let ?calls = "map (\<lambda>device. fst (execute_on_device con net device op nm)) devices"
  let ?recs = "map (\<lambda>d. device_record net d op nm) devices"
  from False assms(2) have panel: "con (panel_text nm) = None"
    and progress: "par \<longrightarrow> con (progress_text nm) = None"
    by (auto simp: batch_texts_def)
  have calls: "?calls = map Inr ?recs"
    by (rule batch_texts_devices [OF assms(2)])
  show ?thesis
  proof (cases par)
    case True
    let ?rs = "as_completed sched (length devices) ?recs"
    have m: "mset ?rs = mset ?recs"
      by (simp add: as_completed_mset)
    then have "set ?rs = set ?recs"
      by (metis set_mset_mset)
    from batch_texts_summary [OF assms(2) this] have summary: "display_summary con ?rs = None" .
    have "as_completed sched (length devices) ?calls = map Inr ?rs"
      unfolding calls by (rule as_completed_map)
    then have g: "gather (as_completed sched (length devices) ?calls) = Inr ?rs"
      by (simp only: gather_returned)
    from True assms(1) have "\<not> max_workers \<le> 0" by simp
    with True False panel progress have
      "batch_execute con net devices op nm par max_workers sched =
         (case gather (as_completed sched (length devices) ?calls) of
            Inl e \<Rightarrow> Inl e
          | Inr device_results \<Rightarrow>
              (case display_summary con device_results of Some e \<Rightarrow> Inl e | None \<Rightarrow> Inr device_results))"
      by (simp add: batch_execute_def)
    also have "\<dots> = Inr ?rs"
      unfolding g by (simp add: summary)
    finally have "batch_execute con net devices op nm par max_workers sched = Inr ?rs" .
    moreover have "length ?rs = length devices"
      by (simp add: as_completed_length)
    ultimately show ?thesis using m True by auto
  next
    case par: False
    have "set ?recs = set ?recs" ..
    from batch_texts_summary [OF assms(2) this] have summary: "display_summary con ?recs = None" .
    have g: "gather ?calls = Inr ?recs"
      unfolding calls by (rule gather_returned)
    from par False panel have
      "batch_execute con net devices op nm par max_workers sched =
         (case gather ?calls of
            Inl e \<Rightarrow> Inl e
          | Inr device_results \<Rightarrow>
              (case display_summary con device_results of Some e \<Rightarrow> Inl e | None \<Rightarrow> Inr device_results))"
      by (simp add: batch_execute_def)
    also have "\<dots> = Inr ?recs"
      unfolding g by (simp add: summary)
    finally show ?thesis by simp
  qed
qed

text \<open>
  C3. Let the console print every text of a batch (\<open>batch_texts\<close>: the title, in
  parallel mode the description of the progress bar, what \<open>execute_on_device\<close> prints
  for each device, and the cells of the summary table). In parallel mode with a
  \<open>max_workers\<close> that is not positive and a device list that is not empty,
  \<open>batch_execute\<close> raises \<open>ValueError\<close>. In every other case it returns a result list
  with one record per device of the input list: its length is the number of devices and
  its records are, as a multiset, the records of \<open>execute_on_device\<close> for the devices,
  whatever the order of completion and whichever devices fail to connect or raise in
  the operation. In sequential mode the records are in the order of the devices.
\<close>

theorem batch_execute_one_result_per_device:
  assumes "list_all (\<lambda>t. con t = None) (batch_texts net devices op nm par)"
  shows "if par \<and> max_workers \<le> 0 \<and> devices \<noteq> []
         then batch_execute con net devices op nm par max_workers sched = Inl ValueError
         else \<exists>rs. batch_execute con net devices op nm par max_workers sched = Inr rs \<and>
                length rs = length devices \<and>
                mset rs = mset (map (\<lambda>d. device_record net d op nm) devices) \<and>
                (\<not> par \<longrightarrow> rs = map (\<lambda>d. device_record net d op nm) devices)"
proof (cases "par \<and> max_workers \<le> 0 \<and> devices \<noteq> []")
  case True
  with assms have "con (panel_text nm) = None" "con (progress_text nm) = None"
    by (auto simp: batch_texts_def)
  with True show ?thesis
    by (simp add: batch_execute_def)
next
  case False
  show ?thesis
  proof (cases "devices = []")
    case True
    then have "batch_execute con net devices op nm par max_workers sched = Inr []"
      by (simp add: batch_execute_def)
    with True False show ?thesis by (simp only: if_False) simp
  next
    case ne: False
    with False have "par \<longrightarrow> 0 < max_workers" by auto
    from batch_execute_returns [OF this assms]
    have "\<exists>rs. batch_execute con net devices op nm par max_workers sched = Inr rs \<and>
                length rs = length devices \<and>
                mset rs = mset (map (\<lambda>d. device_record net d op nm) devices) \<and>
                (\<not> par \<longrightarrow> rs = map (\<lambda>d. device_record net d op nm) devices)" .
    with False show ?thesis by (simp only: if_False)
  qed
qed

theorem batch_execute_one_result_per_device_witness:
  "list_all (\<lambda>t. strict_console t = None) (batch_texts lab_net lab_devices show_version ''version'' True) \<and>
   length lab_devices = 3 \<and>
   map status (projr (batch_execute strict_console lab_net lab_devices show_version ''version'' True 5 (\<lambda>n. 1)))
     = [''failed'', ''error'', ''success''] \<and>
   map status (projr (batch_execute strict_console lab_net lab_devices show_version ''version'' False 5 (\<lambda>n. 0)))
     = [''success'', ''failed'', ''error'']"
  using batch_execute_one_result_per_device [of strict_console lab_net lab_devices show_version
      "''version''" True 5 "\<lambda>n. 1"]
  by (simp add: batch_fixture_defs)

text \<open>
  Two batches that return no result list. In parallel mode with \<open>max_workers = 0\<close> the
  thread pool raises \<open>ValueError\<close>. With an operation whose exception message holds a
  closing tag, the print of the failure raises \<open>MarkupError\<close> in the first device's call,
  and the batch ends with that exception.
\<close>

theorem batch_execute_raises_counterexample:
  "batch_execute strict_console lab_net lab_devices show_version ''version'' True 0 (\<lambda>n. 0)
     = Inl ValueError \<and>
   batch_execute strict_console lab_net lab_devices garbled ''backup'' False 5 (\<lambda>n. 0)
     = Inl MarkupError"
  by (simp add: batch_fixture_defs)

text \<open>
  C4. When the operation raises on a connected device and the console cannot render
  the failure text, which quotes the exception's message, then the print in the
  \<open>except\<close> block raises and \<open>execute_on_device\<close> returns no record: the exception
  reaches the caller.
\<close>

theorem execute_on_device_propagates:
  assumes "device_info ''host'' = Some h"
    and "connect_handler net device_info = Inr connection"
    and "op connection = OpRaises e"
    and "con (connecting_text h) = None" and "con (connected_text nm) = None"
    and "con (failed_text h e) = Some m"
  shows "execute_on_device con net device_info op nm
           = (Inl MarkupError, [connecting_text h, connected_text nm, failed_text h e])"
  using assms
  by (simp add: execute_on_device_def connect_device_def except_block_def console_print_def)

theorem execute_on_device_propagates_witness:
  "connect_handler lab_net [''host'' \<mapsto> ''10.0.0.3''] = Inr ''10.0.0.3'' \<and>
   garbled ''10.0.0.3'' = OpRaises ''bad reply [/x] from device'' \<and>
   strict_console (connecting_text ''10.0.0.3'') = None \<and>
   strict_console (connected_text ''backup'') = None \<and>
   strict_console (failed_text ''10.0.0.3'' ''bad reply [/x] from device'')
     = Some ''closing tag [/x] does not match any open tag'' \<and>
   fst (execute_on_device strict_console lab_net [''host'' \<mapsto> ''10.0.0.3''] garbled ''backup'')
     = Inl MarkupError"
  using execute_on_device_propagates [of "[''host'' \<mapsto> ''10.0.0.3'']" "''10.0.0.3''" lab_net
      "''10.0.0.3''" garbled "''bad reply [/x] from device''" strict_console "''backup''"
      "''closing tag [/x] does not match any open tag''"]
  by (simp add: lab_net_def garbled_def strict_console_def connecting_text_def connected_text_def
      failed_text_def)

section \<open>Output framing: properties\<close>

lemma framed_refl: "framed out st (out, st)"
  by (simp add: framed_def)

lemma framed_sleep: "framed out (sleep st n) R \<Longrightarrow> framed out st R"
  by (simp add: framed_def sleep_def)

lemma framed_recv:
  assumes "\<not> py_in more_marker chunk" "framed (out @ chunk) (recv st chunk) R"
  shows "framed out st R"
proof -
  from assms(2) obtain cs where
    "chunks_read (snd R) = chunks_read st @ chunk # cs" "fst R = out @ concat (chunk # cs)"
    "keys_sent (snd R) = keys_sent st @ replicate (length (filter (py_in more_marker) cs)) '' ''"
    by (auto simp: framed_def recv_def)
  with assms(1) show ?thesis
    unfolding framed_def by (intro exI [of _ "chunk # cs"]) simp
qed

lemma framed_recv_more:
  assumes "py_in more_marker chunk" "framed (out @ chunk) (send (recv st chunk) '' '') R"
  shows "framed out st R"
proof -
  from assms(2) obtain cs where
    "chunks_read (snd R) = chunks_read st @ chunk # cs" "fst R = out @ concat (chunk # cs)"
    "keys_sent (snd R) = keys_sent st @ '' '' # replicate (length (filter (py_in more_marker) cs)) '' ''"
    by (auto simp: framed_def recv_def send_def)
  with assms(1) show ?thesis
    unfolding framed_def by (intro exI [of _ "chunk # cs"]) simp
qed

lemma read_loop_stop:
  "\<not> now st - start_time < 10 * tmo \<Longrightarrow>
   read_loop sh tmo start_time last_data_time out st = (out, st)"
  by (subst read_loop.simps) simp

lemma read_loop_none:
  "now st - start_time < 10 * tmo \<Longrightarrow> sh st = None \<Longrightarrow>
   read_loop sh tmo start_time last_data_time out st =
     (if idle st last_data_time out then (out, st)
      else read_loop sh tmo start_time last_data_time out (sleep st 2))"
  by (subst read_loop.simps) simp

lemma read_loop_more:
  "now st - start_time < 10 * tmo \<Longrightarrow> sh st = Some chunk \<Longrightarrow> py_in more_marker chunk \<Longrightarrow>
   read_loop sh tmo start_time last_data_time out st =
     read_loop sh tmo start_time (now st) (out @ chunk) (sleep (send (recv st chunk) '' '') 3)"
  by (subst read_loop.simps) simp

lemma read_loop_data:
  "now st - start_time < 10 * tmo \<Longrightarrow> sh st = Some chunk \<Longrightarrow> \<not> py_in more_marker chunk \<Longrightarrow>
   read_loop sh tmo start_time last_data_time out st =
     (if prompt_match chunk \<and> length (out @ chunk) > 50 then
        (if sh (sleep (recv st chunk) 5) = None then (out @ chunk, sleep (recv st chunk) 5)
         else if idle (sleep (recv st chunk) 5) (now st) (out @ chunk)
         then (out @ chunk, sleep (recv st chunk) 5)
         else read_loop sh tmo start_time (now st) (out @ chunk)
                (sleep (sleep (recv st chunk) 5) 2))
      else if idle (recv st chunk) (now st) (out @ chunk) then (out @ chunk, recv st chunk)
      else read_loop sh tmo start_time (now st) (out @ chunk) (sleep (recv st chunk) 2))"
  by (subst read_loop.simps) simp

lemma read_loop_framed: "framed out st (read_loop sh tmo start_time last_data_time out st)"
proof (induction sh tmo start_time last_data_time out st rule: read_loop.induct)
  case (1 sh tmo start_time last_data_time out st)
  show ?case
  proof (cases "now st - start_time < 10 * tmo")
    case False
    then show ?thesis by (simp add: read_loop_stop framed_refl)
  next
    case running: True
    show ?thesis
    proof (cases "sh st")
      case None
      show ?thesis
      proof (cases "idle st last_data_time out")
        case True
        with running None show ?thesis by (simp add: read_loop_none framed_refl)
      next
        case False
        from "1.IH"(1) running None False
        have "framed out (sleep st 2) (read_loop sh tmo start_time last_data_time out (sleep st 2))"
          by simp
        then have "framed out st (read_loop sh tmo start_time last_data_time out (sleep st 2))"
          by (rule framed_sleep)
        with running None False show ?thesis by (simp add: read_loop_none)
      qed
    next
      case (Some chunk)
      show ?thesis
      proof (cases "py_in more_marker chunk")
        case True
        from "1.IH"(2) running Some True
        have "framed (out @ chunk) (sleep (send (recv st chunk) '' '') 3)
                (read_loop sh tmo start_time (now st) (out @ chunk)
                   (sleep (send (recv st chunk) '' '') 3))"
          by simp
        then have "framed out st (read_loop sh tmo start_time (now st) (out @ chunk)
                   (sleep (send (recv st chunk) '' '') 3))"
          by (rule framed_recv_more [OF True framed_sleep])
        with running Some True show ?thesis by (simp add: read_loop_more)
      next
        case False
        note eq = read_loop_data [where sh = sh and st = st and chunk = chunk and tmo = tmo
            and start_time = start_time and last_data_time = last_data_time and out = out,
            OF running Some False]
        have stop5: "framed out st (out @ chunk, sleep (recv st chunk) 5)"
          by (rule framed_recv [OF False framed_sleep [OF framed_refl]])
        have stop0: "framed out st (out @ chunk, recv st chunk)"
          by (rule framed_recv [OF False framed_refl])
        show ?thesis
        proof (cases "prompt_match chunk \<and> length (out @ chunk) > 50")
          case prompt: True
          show ?thesis
          proof (cases "sh (sleep (recv st chunk) 5) = None \<or>
                        idle (sleep (recv st chunk) 5) (now st) (out @ chunk)")
            case True
            with prompt stop5 show ?thesis unfolding eq by auto
          next
            case more: False
            from "1.IH"(3) running Some False prompt more
            have "framed (out @ chunk) (sleep (sleep (recv st chunk) 5) 2)
                    (read_loop sh tmo start_time (now st) (out @ chunk)
                       (sleep (sleep (recv st chunk) 5) 2))"
              by simp
            then have "framed out st (read_loop sh tmo start_time (now st) (out @ chunk)
                       (sleep (sleep (recv st chunk) 5) 2))"
              by (rule framed_recv [OF False framed_sleep [OF framed_sleep]])
            with prompt more show ?thesis unfolding eq by auto
          qed
        next
          case noprompt: False
          show ?thesis
          proof (cases "idle (recv st chunk) (now st) (out @ chunk)")
            case True
            with noprompt stop0 show ?thesis unfolding eq by auto
          next
            case more: False
            from "1.IH"(4) running Some False noprompt more
            have "framed (out @ chunk) (sleep (recv st chunk) 2)
                    (read_loop sh tmo start_time (now st) (out @ chunk) (sleep (recv st chunk) 2))"
              by simp
            then have "framed out st
                    (read_loop sh tmo start_time (now st) (out @ chunk) (sleep (recv st chunk) 2))"
              by (rule framed_recv [OF False framed_sleep])
            with noprompt more show ?thesis unfolding eq by auto
          qed
        qed
      qed
    qed
  qed
qed

text \<open>The definitions unfolded to run the read loop on a concrete shell.\<close>

lemmas framer_defs = handle_pagination_def read_loop.simps recv_def send_def sleep_def idle_def
  more_marker_def word_char_def space_char_def opened_def

text \<open>
  C2. Whatever the shell delivers, the text that \<open>_handle_pagination\<close> returns is the
  concatenation of the chunks it read, pagination markers included, and it sent exactly
  one continuation key for each chunk read that holds the marker.
\<close>

theorem pagination_key_per_marked_chunk:
  "\<exists>cs. chunks_read (snd (handle_pagination sh tmo st)) = chunks_read st @ cs \<and>
        fst (handle_pagination sh tmo st) = concat cs \<and>
        keys_sent (snd (handle_pagination sh tmo st)) =
          keys_sent st @ replicate (length (filter (py_in more_marker) cs)) '' ''"
  using read_loop_framed [of "[]" st sh tmo "now st" "now st"]
  by (simp add: framed_def handle_pagination_def)

theorem pagination_key_per_marked_chunk_witness:
  "handle_pagination paged_shell 30 opened =
     (''display vlan  1 default  10 office  ---- More ----  20 voice  30 guest <H3C>'',
      \<lparr>now = 8,
       chunks_read = [''display vlan  1 default  10 office  ---- More ----'',
                      ''  20 voice  30 guest <H3C>''],
       keys_sent = ['' '']\<rparr>)"
  using pagination_key_per_marked_chunk [of paged_shell 30 opened]
  by (simp add: framer_defs paged_shell_def)

text \<open>
  The claim as stated fails: the marker is looked for in each chunk, not counted. A
  chunk with two markers gets one key, and a marker that arrives split over two chunks
  gets none, although more data and a prompt follow in both responses.
\<close>

theorem pagination_key_per_occurrence_counterexample:
  "py_count more_marker (fst (handle_pagination crowded_shell 30 opened)) = 2 \<and>
   prompt_match (fst (handle_pagination crowded_shell 30 opened)) \<and>
   keys_sent (snd (handle_pagination crowded_shell 30 opened)) = ['' ''] \<and>
   py_count more_marker (fst (handle_pagination split_shell 30 opened)) = 1 \<and>
   prompt_match (fst (handle_pagination split_shell 30 opened)) \<and>
   keys_sent (snd (handle_pagination split_shell 30 opened)) = []"
  by (simp add: framer_defs crowded_shell_def split_shell_def)

section \<open>Output framing on the wall clock: properties\<close>

lemma clocked_framed_refl: "clocked_framed out st out st"
  by (simp add: clocked_framed_def)

lemma clocked_framed_trans:
  assumes "clocked_framed out st out1 st1" and "clocked_framed out1 st1 out2 st2"
  shows "clocked_framed out st out2 st2"
proof -
  from assms(1) obtain cs where cs: "chunks_got st1 = chunks_got st @ cs" "out1 = out @ concat cs"
    "keys_typed st1 = keys_typed st @ replicate (length (filter (py_in more_marker) cs)) '' ''"
    unfolding clocked_framed_def by blast
  from assms(2) obtain ds where ds: "chunks_got st2 = chunks_got st1 @ ds" "out2 = out1 @ concat ds"
    "keys_typed st2 = keys_typed st1 @ replicate (length (filter (py_in more_marker) ds)) '' ''"
    unfolding clocked_framed_def by blast
  from cs ds show ?thesis
    unfolding clocked_framed_def
    by (intro exI [of _ "cs @ ds"]) (simp add: replicate_add)
qed

lemma clocked_framed_tick: "clocked_framed out st out (tick st)"
  by (simp add: clocked_framed_def tick_def)

lemma idle_check_end:
  "(idle_check env ldt out st = Break out' st' \<longrightarrow>
      out' = out \<and> st' = tick st) \<and>
   (idle_check env ldt out st = Continue ldt' out' st' \<longrightarrow>
      out' = out \<and> st' = nap (tick st) (2 / 10))"
  by (simp add: idle_check_def)

lemma got_framed:
  "\<not> py_in more_marker chunk \<Longrightarrow> clocked_framed out st (out @ chunk) (got st chunk)"
  unfolding clocked_framed_def by (intro exI [of _ "[chunk]"]) (simp add: got_def)

lemma got_typed_framed:
  "py_in more_marker chunk \<Longrightarrow>
   clocked_framed out st (out @ chunk) (typed (got st chunk) '' '')"
  unfolding clocked_framed_def by (intro exI [of _ "[chunk]"]) (simp add: got_def typed_def)

lemma clocked_framed_cong:
  assumes "clocked_framed out st out' st1"
    and "chunks_got st2 = chunks_got st1" and "keys_typed st2 = keys_typed st1"
  shows "clocked_framed out st out' st2"
  using assms by (simp add: clocked_framed_def)

lemma clocked_framed_from:
  assumes "clocked_framed out st1 out' st'"
    and "chunks_got st1 = chunks_got st" and "keys_typed st1 = keys_typed st"
  shows "clocked_framed out st out' st'"
  using assms by (simp add: clocked_framed_def)

lemma loop_body_end:
  assumes "loop_body env ldt out st = e"
  shows "case e of
           Break out' st' \<Rightarrow>
             clocked_framed out st out' st' \<and> readings st \<le> readings st' \<and>
             readings st' \<le> readings st + 2
         | Continue ldt' out' st' \<Rightarrow>
             clocked_framed out st out' st' \<and> readings st \<le> readings st' \<and>
             readings st' \<le> readings st + 2"
proof (cases "arrival env st")
  case None
  with assms have e: "e = idle_check env ldt out st" by (simp add: loop_body_def)
  show ?thesis
    unfolding e
    by (simp add: idle_check_def clocked_framed_def tick_def nap_def)
next
  case (Some chunk)
  show ?thesis
  proof (cases "py_in more_marker chunk")
    case True
    with Some assms have e: "e = Continue (clock env (got st chunk)) (out @ chunk)
              (nap (typed (tick (got st chunk)) '' '') (3 / 10))"
      by (simp add: loop_body_def)
    have "clocked_framed out st (out @ chunk) (nap (typed (tick (got st chunk)) '' '') (3 / 10))"
      by (rule clocked_framed_cong [OF got_typed_framed [OF True]])
         (simp_all add: nap_def typed_def tick_def got_def)
    then show ?thesis
      unfolding e by (simp add: nap_def typed_def tick_def got_def)
  next
    case False
    note fr = got_framed [OF False, of out st]
    have fr1: "clocked_framed out st (out @ chunk) (tick (got st chunk))"
      by (rule clocked_framed_cong [OF fr]) (simp_all add: tick_def)
    have fr2: "clocked_framed out st (out @ chunk) (tick (tick (got st chunk)))"
      by (rule clocked_framed_cong [OF fr]) (simp_all add: tick_def)
    have fr3: "clocked_framed out st (out @ chunk) (nap (tick (tick (got st chunk))) d)" for d
      by (rule clocked_framed_cong [OF fr]) (simp_all add: tick_def nap_def)
    have fr4: "clocked_framed out st (out @ chunk) (nap (tick (got st chunk)) d)" for d
      by (rule clocked_framed_cong [OF fr]) (simp_all add: tick_def nap_def)
    have fr5: "clocked_framed out st (out @ chunk) (tick (nap (tick (got st chunk)) d))" for d
      by (rule clocked_framed_cong [OF fr]) (simp_all add: tick_def nap_def)
    have fr6: "clocked_framed out st (out @ chunk) (nap (tick (nap (tick (got st chunk)) d)) d')"
      for d d'
      by (rule clocked_framed_cong [OF fr]) (simp_all add: tick_def nap_def)
    have rd: "readings (tick (got st chunk)) = Suc (readings st)"
      "readings (tick (tick (got st chunk))) = Suc (Suc (readings st))"
      "readings (nap (tick (tick (got st chunk))) d) = Suc (Suc (readings st))"
      "readings (nap (tick (got st chunk)) d) = Suc (readings st)"
      "readings (tick (nap (tick (got st chunk)) d)) = Suc (Suc (readings st))"
      "readings (nap (tick (nap (tick (got st chunk)) d)) d') = Suc (Suc (readings st))"
      for d d'
      by (simp_all add: tick_def nap_def got_def)
    from Some False assms have e: "e =
          (if prompt_match chunk \<and> length (out @ chunk) > 50 then
            (if arrival env (nap (tick (got st chunk)) (5 / 10)) = None
             then Break (out @ chunk) (nap (tick (got st chunk)) (5 / 10))
             else idle_check env (clock env (got st chunk)) (out @ chunk)
                    (nap (tick (got st chunk)) (5 / 10)))
          else idle_check env (clock env (got st chunk)) (out @ chunk) (tick (got st chunk)))"
      by (simp add: loop_body_def)
    show ?thesis
      unfolding e idle_check_def
      by (simp add: fr1 fr2 fr3 fr4 fr5 fr6 rd del: append_assoc)
  qed
qed

lemma clocked_loop_returns:
  assumes deadline: "\<forall>n\<ge>N. of_int tmo \<le> time_at env n - start_time"
  shows "N - readings st \<le> k \<Longrightarrow>
         \<exists>out' st'. clocked_loop env tmo start_time ldt out st = Some (out', st') \<and>
           clocked_framed out st out' st' \<and> readings st' \<le> max (readings st + 1) (N + 3)"
proof (induction k arbitrary: ldt out st)
  case 0
  then have "N \<le> readings st" by simp
  with deadline have "of_int tmo \<le> clock env st - start_time"
    by (simp add: clock_def)
  then have "\<not> float_less env (clock env st) start_time tmo"
    by (simp add: float_less_def)
  then have "clocked_loop env tmo start_time ldt out st = Some (out, tick st)"
    by (subst clocked_loop.simps) simp
  then show ?case
    by (simp add: clocked_framed_tick) (simp add: tick_def)
next
  case (Suc k)
  show ?case
  proof (cases "float_less env (clock env st) start_time tmo")
    case False
    then have "clocked_loop env tmo start_time ldt out st = Some (out, tick st)"
      by (subst clocked_loop.simps) simp
    then show ?thesis
      by (simp add: clocked_framed_tick) (simp add: tick_def)
  next
    case True
    then have "clock env st - start_time < of_int tmo"
      by (simp add: float_less_def)
    with deadline have before: "readings st < N"
      unfolding clock_def by (metis not_le_imp_less not_less)
    have t: "readings (tick st) = Suc (readings st)"
      "chunks_got (tick st) = chunks_got st" "keys_typed (tick st) = keys_typed st"
      by (simp_all add: tick_def)
    show ?thesis
    proof (cases "loop_body env ldt out (tick st)")
      case (Break out' st')
      from loop_body_end [OF Break] have fr: "clocked_framed out (tick st) out' st'"
        and rd: "readings st' \<le> readings (tick st) + 2"
        by simp_all
      from True Break have "clocked_loop env tmo start_time ldt out st = Some (out', st')"
        by (subst clocked_loop.simps) simp
      moreover from fr t have "clocked_framed out st out' st'"
        by (intro clocked_framed_from [OF fr]) simp_all
      moreover from rd t before have "readings st' \<le> max (readings st + 1) (N + 3)"
        by simp
      ultimately show ?thesis by blast
    next
      case (Continue ldt' out' st')
      from loop_body_end [OF Continue] have fr: "clocked_framed out (tick st) out' st'"
        and lo: "readings (tick st) \<le> readings st'"
        and rd: "readings st' \<le> readings (tick st) + 2"
        by simp_all
      from lo t Suc.prems have "N - readings st' \<le> k" by simp
      from Suc.IH [OF this, of ldt' out'] obtain out2 st2 where
        ret: "clocked_loop env tmo start_time ldt' out' st' = Some (out2, st2)"
        and fr2: "clocked_framed out' st' out2 st2"
        and rd2: "readings st2 \<le> max (readings st' + 1) (N + 3)"
        by blast
      from True Continue ret have "clocked_loop env tmo start_time ldt out st = Some (out2, st2)"
        by (subst clocked_loop.simps) simp
      moreover from fr t have "clocked_framed out st out' st'"
        by (intro clocked_framed_from [OF fr]) simp_all
      then have "clocked_framed out st out2 st2"
        using fr2 by (rule clocked_framed_trans)
      moreover from rd rd2 t before have "readings st2 \<le> max (readings st + 1) (N + 3)"
        by simp
      ultimately show ?thesis by blast
    qed
  qed
qed

lemma silent_line_timeout: "timeout_shown silent_line 0 1 12"
proof -
  have "1 \<le> real ((n - 2) div 2) / 5" if "12 \<le> n" for n
  proof -
    from that have "5 \<le> (n - 2) div 2" by simp
    then have "5 \<le> real ((n - 2) div 2)" by simp
    then show ?thesis by simp
  qed
  then show ?thesis
    by (simp add: timeout_shown_def silent_line_def)
qed

text \<open>The definitions unfolded to run the read loop on a concrete line.\<close>

lemmas clocked_defs = clocked_handle_pagination_def clocked_loop.simps loop_body_def
  idle_check_def float_less_def float_greater_def clock_def tick_def got_def typed_def nap_def
  at_rest_def more_marker_def

text \<open>
  C7. Let the clock, from its \<open>N\<close>-th reading on, show that the timeout has passed since
  the reading taken as \<open>start_time\<close>. Then, for every byte-arrival schedule, every
  rounding and every timeout, \<open>_handle_pagination\<close> returns, and returns a value: the
  text returned is the concatenation of the chunks it read, with one key sent for each
  chunk holding the marker. It returns after at most three readings beyond \<open>N\<close> (or its
  first three readings, when the timeout has passed from the start): the loop tests the
  timeout once per pass, begins no pass once it has read that the timeout is reached,
  and a pass reads the clock at most three times.
\<close>

theorem clocked_handle_pagination_returns:
  assumes "timeout_shown env (time_at env (readings st)) tmo N"
  shows "\<exists>out st'. clocked_handle_pagination env tmo st = Some (out, st') \<and>
           clocked_framed [] st out st' \<and>
           readings st' \<le> max (readings st + 3) (N + 3)"
proof -
  from assms have deadline: "\<forall>n\<ge>N. of_int tmo \<le> time_at env n - clock env st"
    by (simp add: timeout_shown_def clock_def)
  have "N - readings (tick (tick st)) \<le> N" by simp
  from clocked_loop_returns [OF deadline this, of "clock env (tick st)" "[]"]
  obtain out st' where
    ret: "clocked_loop env tmo (clock env st) (clock env (tick st)) [] (tick (tick st)) = Some (out, st')"
    and fr: "clocked_framed [] (tick (tick st)) out st'"
    and rd: "readings st' \<le> max (readings (tick (tick st)) + 1) (N + 3)"
    by blast
  have "clocked_framed [] st out st'"
    by (rule clocked_framed_from [OF fr]) (simp_all add: tick_def)
  moreover from rd have "readings st' \<le> max (readings st + 3) (N + 3)"
    by (simp add: tick_def)
  ultimately show ?thesis
    using ret by (auto simp: clocked_handle_pagination_def)
qed

theorem clocked_handle_pagination_returns_witness:
  "timeout_shown silent_line (time_at silent_line (readings at_rest)) 1 12 \<and>
   clocked_handle_pagination silent_line 1 at_rest
     = Some ([], \<lparr>readings = 13, chunks_got = [], keys_typed = [],
                  naps = [2 / 10, 2 / 10, 2 / 10, 2 / 10, 2 / 10]\<rparr>) \<and>
   time_at silent_line 12 = 1"
  using clocked_handle_pagination_returns [of silent_line at_rest 1 12] silent_line_timeout
  by (simp add: clocked_defs silent_line_def)

text \<open>
  The return can come later than the timeout. On \<open>late_line\<close> with a timeout of 1 s the
  loop test at 0.9 s lets a pass begin; the pass reads the prompt, sleeps 0.5 s, finds
  more data ready, and sleeps 0.2 s; the loop test that ends the loop reads 1.6 s.
\<close>

theorem return_after_timeout_counterexample:
  "clocked_handle_pagination late_line 1 at_rest
     = Some (''display vlan  1 default  10 office  ---- More ----  20 voice  30 guest <H3C>'',
             \<lparr>readings = 14,
              chunks_got = [''display vlan  1 default  10 office  ---- More ----'',
                            ''  20 voice  30 guest <H3C>''],
              keys_typed = ['' ''],
              naps = [3 / 10, 2 / 10, 2 / 10, 2 / 10, 5 / 10, 2 / 10]\<rparr>) \<and>
   time_at late_line 0 = 0 \<and> time_at late_line 10 = 9 / 10 \<and> time_at late_line 13 = 16 / 10"
  by (simp add: clocked_defs late_line_def word_char_def space_char_def)


end
